theory Spec2Isabelle
  imports Complex_Main
begin

section \<open>Errors, storage buffers and loops\<close>

text \<open>
  The kernels of \<^verbatim>\<open>minitorch/fast_ops.py\<close> read and write flat storage buffers
  that the caller hands in by reference. A buffer is a list of scalars, and the store maps
  a reference to the buffer it names, so that a call in which two arguments name the same
  buffer is a call the model can express. Reading or writing a list outside its range
  raises \<open>IndexError\<close> in Python; \<open>ShapeMismatch\<close> is what the spec calls the failure of
  \<^verbatim>\<open>shape_broadcast\<close>, and \<open>DimensionMismatch\<close> is the spec's name for the failed
  \<^verbatim>\<open>assert a.shape[-1] == b.shape[-2]\<close> of \<^verbatim>\<open>FastOps.matrix_multiply\<close>.

  Scope of the model: shapes, strides and coordinates are natural numbers (the repository
  never builds a negative stride), so a position computed from them is never negative; the
  axis argument of a reduction is an integer and indexes as Python does, a negative value
  counting from the end; the \<^verbatim>\<open>np.int32\<close> cells of an index buffer hold every
  coordinate exactly as long as each extent is below \<open>2^31\<close>; the scalars are of an
  arbitrary type and the functions a kernel applies to them, the addition and the
  multiplication of the matrix product among them, are parameters, so that nothing is
  assumed of floating-point arithmetic; \<^verbatim>\<open>prange\<close> runs its iterations in ascending
  order, as it does with the JIT disabled.
\<close>

datatype error = IndexError | ShapeMismatch | DimensionMismatch

type_synonym ref = nat
type_synonym 'a heap = "ref \<Rightarrow> 'a list"

definition then_do :: "error + 'a \<Rightarrow> ('a \<Rightarrow> error + 'b) \<Rightarrow> error + 'b" where
  "then_do m f = (case m of Inl e \<Rightarrow> Inl e | Inr x \<Rightarrow> f x)"

text \<open>\<^verbatim>\<open>xs[i]\<close> and \<^verbatim>\<open>xs[i] = v\<close> on a shape, a stride tuple or an index buffer.\<close>

definition get_at :: "'a list \<Rightarrow> nat \<Rightarrow> error + 'a" where
  "get_at xs i = (if i < length xs then Inr (xs ! i) else Inl IndexError)"

definition set_at :: "'a list \<Rightarrow> nat \<Rightarrow> 'a \<Rightarrow> error + 'a list" where
  "set_at xs i v = (if i < length xs then Inr (xs[i := v]) else Inl IndexError)"

text \<open>
  The same with an integer index, as Python resolves it: a negative index counts from the
  end, and an index outside \<open>-n \<dots> n - 1\<close> raises \<open>IndexError\<close>.
\<close>

definition py_index :: "nat \<Rightarrow> int \<Rightarrow> error + nat" where
  "py_index n i =
     (let j = (if i < 0 then i + int n else i)
      in if 0 \<le> j \<and> j < int n then Inr (nat j) else Inl IndexError)"

definition py_get :: "'a list \<Rightarrow> int \<Rightarrow> error + 'a" where
  "py_get xs i = then_do (py_index (length xs) i) (\<lambda>k. Inr (xs ! k))"

definition py_set :: "'a list \<Rightarrow> int \<Rightarrow> 'a \<Rightarrow> error + 'a list" where
  "py_set xs i v = then_do (py_index (length xs) i) (\<lambda>k. Inr (xs[k := v]))"

text \<open>\<^verbatim>\<open>buf[p]\<close> and \<^verbatim>\<open>buf[p] = v\<close> on the storage buffer named by \<open>r\<close>.\<close>

definition load :: "'a heap \<Rightarrow> ref \<Rightarrow> nat \<Rightarrow> error + 'a" where
  "load h r p = get_at (h r) p"

definition store :: "'a heap \<Rightarrow> ref \<Rightarrow> nat \<Rightarrow> 'a \<Rightarrow> error + 'a heap" where
  "store h r p v = then_do (set_at (h r) p v) (\<lambda>buf. Inr (h(r := buf)))"

text \<open>\<^verbatim>\<open>for i in ns: body\<close>, stopping at the first exception.\<close>

fun for_loop :: "'i list \<Rightarrow> ('i \<Rightarrow> 's \<Rightarrow> error + 's) \<Rightarrow> 's \<Rightarrow> error + 's" where
  "for_loop [] body s = Inr s"
| "for_loop (i # ns) body s = then_do (body i s) (for_loop ns body)"

section \<open>Index arithmetic of \<^verbatim>\<open>tensor_data.py\<close>\<close>

text \<open>
  Modelled from the spec: \<^verbatim>\<open>to_index\<close>, \<^verbatim>\<open>index_to_position\<close>,
  \<^verbatim>\<open>broadcast_index\<close> and \<^verbatim>\<open>shape_broadcast\<close> are imported from
  \<^verbatim>\<open>tensor_data.py\<close>, which is not among the sources. The definitions follow
  section 4.1 and 4.2 of the spec; the output-buffer argument is the one the calls in
  \<^verbatim>\<open>fast_ops.py\<close> pass.
\<close>

text \<open>
  Modelled from the spec: successive modulo and integer division by the extents, from the
  last axis backward to the first. The argument of \<open>unravel\<close> is the reversed shape.
\<close>

fun unravel :: "nat \<Rightarrow> nat list \<Rightarrow> nat list" where
  "unravel ordinal [] = []"
| "unravel ordinal (s # ss) = (ordinal mod s) # unravel (ordinal div s) ss"

definition coordinate :: "nat \<Rightarrow> nat list \<Rightarrow> nat list" where
  "coordinate ordinal shp = rev (unravel ordinal (rev shp))"

text \<open>
  Modelled from the spec: \<^verbatim>\<open>to_index(ordinal, shape, out_index)\<close> writes the
  coordinate into the first \<open>rank\<close> cells of the buffer; a buffer with fewer cells than
  the rank is written out of range.
\<close>

definition to_index :: "nat \<Rightarrow> nat list \<Rightarrow> nat list \<Rightarrow> error + nat list" where
  "to_index ordinal shp out_index =
     (if length shp \<le> length out_index
      then Inr (coordinate ordinal shp @ drop (length shp) out_index)
      else Inl IndexError)"

text \<open>
  Modelled from the spec: the dot product of coordinate and strides, over the axes both
  have (the index buffer is longer than the stride tuple).
\<close>

definition index_to_position :: "nat list \<Rightarrow> nat list \<Rightarrow> nat" where
  "index_to_position idx strd = sum_list (map2 (*) idx strd)"

text \<open>
  Modelled from the spec: the smaller shape is right-aligned under the bigger one; an axis
  of extent 1 gets coordinate 0, any other axis copies the aligned coordinate, and the
  leading axes the smaller shape lacks are dropped.
\<close>

definition project :: "nat list \<Rightarrow> nat list \<Rightarrow> nat list \<Rightarrow> nat list" where
  "project big_index big_shape shp =
     map (\<lambda>d. if shp ! d = 1 then 0
              else big_index ! (d + (length big_shape - length shp)))
         [0..<length shp]"

definition broadcast_index ::
  "nat list \<Rightarrow> nat list \<Rightarrow> nat list \<Rightarrow> nat list \<Rightarrow> error + nat list" where
  "broadcast_index big_index big_shape shp out_index =
     (if length shp \<le> length out_index
      then Inr (project big_index big_shape shp @ drop (length shp) out_index)
      else Inl IndexError)"

text \<open>
  Modelled from the spec: right-aligned, pairwise; the larger extent where the two are
  equal or one of them is 1, \<open>ShapeMismatch\<close> otherwise. The arguments of
  \<open>broadcast_rev\<close> are the reversed shapes.
\<close>

fun broadcast_rev :: "nat list \<Rightarrow> nat list \<Rightarrow> error + nat list" where
  "broadcast_rev [] bs = Inr bs"
| "broadcast_rev (a # as) [] = Inr (a # as)"
| "broadcast_rev (a # as) (b # bs) =
     (if a = b \<or> a = 1 \<or> b = 1
      then then_do (broadcast_rev as bs) (\<lambda>cs. Inr (max a b # cs))
      else Inl ShapeMismatch)"

definition shape_broadcast :: "nat list \<Rightarrow> nat list \<Rightarrow> error + nat list" where
  "shape_broadcast shape1 shape2 =
     then_do (broadcast_rev (rev shape1) (rev shape2)) (\<lambda>cs. Inr (rev cs))"

section \<open>The kernels\<close>

subsection \<open>\<^verbatim>\<open>tensor_map\<close>\<close>

text \<open>
  The two branches of the loop body of \<^verbatim>\<open>_map\<close>. \<open>max_dims\<close> is the constant
  \<^verbatim>\<open>MAX_DIMS\<close>, whose value is not among the sources.
\<close>

definition map_fast :: "('a \<Rightarrow> 'a) \<Rightarrow> ref \<Rightarrow> ref \<Rightarrow> nat \<Rightarrow> 'a heap \<Rightarrow> error + 'a heap" where
  "map_fast fn out in_storage i h =
     then_do (load h in_storage i) (\<lambda>v. store h out i (fn v))"

definition map_general ::
  "('a \<Rightarrow> 'a) \<Rightarrow> nat \<Rightarrow> ref \<Rightarrow> nat list \<Rightarrow> nat list \<Rightarrow> ref \<Rightarrow> nat list \<Rightarrow> nat list \<Rightarrow>
   nat \<Rightarrow> 'a heap \<Rightarrow> error + 'a heap" where
  "map_general fn max_dims out out_shape out_strides in_storage in_shape in_strides i h =
     then_do (to_index i out_shape (replicate max_dims 0)) (\<lambda>out_index.
     then_do (broadcast_index out_index out_shape in_shape (replicate max_dims 0)) (\<lambda>in_index.
       let out_pos = index_to_position out_index out_strides;
           j = index_to_position in_index in_strides
       in then_do (load h in_storage j) (\<lambda>v. store h out out_pos (fn v))))"

definition tensor_map ::
  "('a \<Rightarrow> 'a) \<Rightarrow> nat \<Rightarrow> ref \<Rightarrow> nat list \<Rightarrow> nat list \<Rightarrow> ref \<Rightarrow> nat list \<Rightarrow> nat list \<Rightarrow>
   'a heap \<Rightarrow> error + 'a heap" where
  "tensor_map fn max_dims out out_shape out_strides in_storage in_shape in_strides h =
     (let strides_match = (in_strides = out_strides);
          size = prod_list out_shape
      in for_loop [0..<size]
           (\<lambda>i h. if strides_match then map_fast fn out in_storage i h
                  else map_general fn max_dims out out_shape out_strides
                         in_storage in_shape in_strides i h)
           h)"

subsection \<open>\<^verbatim>\<open>tensor_zip\<close>\<close>

definition zip_fast ::
  "('a \<Rightarrow> 'a \<Rightarrow> 'a) \<Rightarrow> ref \<Rightarrow> ref \<Rightarrow> ref \<Rightarrow> nat \<Rightarrow> 'a heap \<Rightarrow> error + 'a heap" where
  "zip_fast fn out a_storage b_storage i h =
     then_do (load h a_storage i) (\<lambda>x.
     then_do (load h b_storage i) (\<lambda>y. store h out i (fn x y)))"

definition zip_general ::
  "('a \<Rightarrow> 'a \<Rightarrow> 'a) \<Rightarrow> nat \<Rightarrow> ref \<Rightarrow> nat list \<Rightarrow> nat list \<Rightarrow> ref \<Rightarrow> nat list \<Rightarrow> nat list \<Rightarrow>
   ref \<Rightarrow> nat list \<Rightarrow> nat list \<Rightarrow> nat \<Rightarrow> 'a heap \<Rightarrow> error + 'a heap" where
  "zip_general fn max_dims out out_shape out_strides a_storage a_shape a_strides
     b_storage b_shape b_strides i h =
     then_do (to_index i out_shape (replicate max_dims 0)) (\<lambda>out_index.
       let out_pos = index_to_position out_index out_strides
       in then_do (broadcast_index out_index out_shape a_shape (replicate max_dims 0)) (\<lambda>a_pos.
       let j = index_to_position a_pos a_strides
       in then_do (broadcast_index out_index out_shape b_shape (replicate max_dims 0)) (\<lambda>b_pos.
       let k = index_to_position b_pos b_strides
       in then_do (load h a_storage j) (\<lambda>x.
          then_do (load h b_storage k) (\<lambda>y. store h out out_pos (fn x y))))))"

definition tensor_zip ::
  "('a \<Rightarrow> 'a \<Rightarrow> 'a) \<Rightarrow> nat \<Rightarrow> ref \<Rightarrow> nat list \<Rightarrow> nat list \<Rightarrow> ref \<Rightarrow> nat list \<Rightarrow> nat list \<Rightarrow>
   ref \<Rightarrow> nat list \<Rightarrow> nat list \<Rightarrow> 'a heap \<Rightarrow> error + 'a heap" where
  "tensor_zip fn max_dims out out_shape out_strides a_storage a_shape a_strides
     b_storage b_shape b_strides h =
     (let strides_match = (a_strides = out_strides \<and> b_strides = out_strides);
          shape_match = (a_shape = b_shape);
          size = prod_list out_shape
      in for_loop [0..<size]
           (\<lambda>i h. if strides_match \<and> shape_match then zip_fast fn out a_storage b_storage i h
                  else zip_general fn max_dims out out_shape out_strides
                         a_storage a_shape a_strides b_storage b_shape b_strides i h)
           h)"

subsection \<open>\<^verbatim>\<open>tensor_reduce\<close>\<close>

text \<open>
  The body of the inner loop of \<^verbatim>\<open>_reduce\<close>; its state is the index buffer, which
  the loop overwrites at \<^verbatim>\<open>reduce_dim\<close>, and the store. The buffer has
  \<^verbatim>\<open>MAX_DIMS\<close> cells, so a negative \<^verbatim>\<open>reduce_dim\<close> counts from the end of the
  buffer and not from the end of the shape.
\<close>

definition reduce_step ::
  "('a \<Rightarrow> 'a \<Rightarrow> 'a) \<Rightarrow> ref \<Rightarrow> nat \<Rightarrow> ref \<Rightarrow> nat list \<Rightarrow> int \<Rightarrow>
   nat \<Rightarrow> nat list \<times> 'a heap \<Rightarrow> error + nat list \<times> 'a heap" where
  "reduce_step fn out out_pos a_storage a_strides reduce_dim j st =
     (case st of (out_index, h) \<Rightarrow>
        then_do (py_set out_index reduce_dim j) (\<lambda>out_index.
          let p = index_to_position out_index a_strides
          in then_do (load h out out_pos) (\<lambda>acc.
             then_do (load h a_storage p) (\<lambda>v.
             then_do (store h out out_pos (fn acc v)) (\<lambda>h. Inr (out_index, h))))))"

definition reduce_cell ::
  "('a \<Rightarrow> 'a \<Rightarrow> 'a) \<Rightarrow> nat \<Rightarrow> ref \<Rightarrow> nat list \<Rightarrow> nat list \<Rightarrow> ref \<Rightarrow> nat list \<Rightarrow> int \<Rightarrow> nat \<Rightarrow>
   nat \<Rightarrow> 'a heap \<Rightarrow> error + 'a heap" where
  "reduce_cell fn max_dims out out_shape out_strides a_storage a_strides reduce_dim reduce_size
     i h =
     then_do (to_index i out_shape (replicate max_dims 0)) (\<lambda>out_index.
       let out_pos = index_to_position out_index out_strides
       in then_do (for_loop [0..<reduce_size]
                     (reduce_step fn out out_pos a_storage a_strides reduce_dim) (out_index, h))
            (\<lambda>st. Inr (snd st)))"

definition tensor_reduce ::
  "('a \<Rightarrow> 'a \<Rightarrow> 'a) \<Rightarrow> nat \<Rightarrow> ref \<Rightarrow> nat list \<Rightarrow> nat list \<Rightarrow> ref \<Rightarrow> nat list \<Rightarrow> nat list \<Rightarrow>
   int \<Rightarrow> 'a heap \<Rightarrow> error + 'a heap" where
  "tensor_reduce fn max_dims out out_shape out_strides a_storage a_shape a_strides reduce_dim h =
     (let size = prod_list out_shape
      in then_do (py_get a_shape reduce_dim) (\<lambda>reduce_size.
           for_loop [0..<size]
             (reduce_cell fn max_dims out out_shape out_strides a_storage a_strides
                reduce_dim reduce_size)
             h))"

subsection \<open>\<^verbatim>\<open>tensor_matrix_multiply\<close>\<close>

text \<open>\<^verbatim>\<open>xs[-k]\<close> for \<open>k = 1, 2\<close>.\<close>

definition get_from_end :: "'a list \<Rightarrow> nat \<Rightarrow> error + 'a" where
  "get_from_end xs k =
     (if 0 < k \<and> k \<le> length xs then Inr (xs ! (length xs - k)) else Inl IndexError)"

text \<open>\<^verbatim>\<open>strides[0] if shape[0] > 1 else 0\<close>\<close>

definition batch_stride :: "nat list \<Rightarrow> nat list \<Rightarrow> error + nat" where
  "batch_stride shp strd =
     then_do (get_at shp 0) (\<lambda>d. if d > 1 then get_at strd 0 else Inr 0)"

text \<open>
  The body of the innermost loop: it reads the two storages, adds the product to the
  private accumulator and advances the two positions. Its state is
  \<open>(sum, a_pos, b_pos)\<close>. \<open>add\<close> and \<open>mul\<close> are the scalars' own \<^verbatim>\<open>+\<close> and
  \<^verbatim>\<open>*\<close>, of which nothing is assumed.
\<close>

definition dot_step ::
  "('a \<Rightarrow> 'a \<Rightarrow> 'a) \<Rightarrow> ('a \<Rightarrow> 'a \<Rightarrow> 'a) \<Rightarrow> 'a heap \<Rightarrow> ref \<Rightarrow> nat list \<Rightarrow> ref \<Rightarrow> nat list \<Rightarrow>
   nat \<Rightarrow> 'a \<times> nat \<times> nat \<Rightarrow> error + 'a \<times> nat \<times> nat" where
  "dot_step add mul h a_storage a_strides b_storage b_strides k st =
     (case st of (acc, a_pos, b_pos) \<Rightarrow>
        then_do (load h a_storage a_pos) (\<lambda>x.
        then_do (load h b_storage b_pos) (\<lambda>y.
        then_do (get_at a_strides 2) (\<lambda>a_step.
        then_do (get_at b_strides 1) (\<lambda>b_step.
          Inr (add acc (mul x y), a_pos + a_step, b_pos + b_step))))))"

text \<open>The body of the loop over \<open>j\<close>: one output cell.\<close>

definition matmul_cell ::
  "('a \<Rightarrow> 'a \<Rightarrow> 'a) \<Rightarrow> ('a \<Rightarrow> 'a \<Rightarrow> 'a) \<Rightarrow>
   ref \<Rightarrow> nat list \<Rightarrow> ref \<Rightarrow> nat list \<Rightarrow> nat list \<Rightarrow> ref \<Rightarrow> nat list \<Rightarrow>
   nat \<Rightarrow> nat \<Rightarrow> nat \<Rightarrow> nat \<Rightarrow> nat \<Rightarrow> 'a::zero heap \<Rightarrow> error + 'a heap" where
  "matmul_cell add mul out out_strides a_storage a_shape a_strides b_storage b_strides
     a_batch_stride b_batch_stride n i j h =
     then_do (get_at a_strides 1) (\<lambda>a_row.
     then_do (get_at b_strides 2) (\<lambda>b_col.
     then_do (get_at out_strides 0) (\<lambda>o0.
     then_do (get_at out_strides 1) (\<lambda>o1.
     then_do (get_at out_strides 2) (\<lambda>o2.
       let a_pos = n * a_batch_stride + i * a_row;
           b_pos = n * b_batch_stride + j * b_col;
           out_pos = n * o0 + i * o1 + j * o2
       in then_do (get_from_end a_shape 1) (\<lambda>inner.
          then_do (for_loop [0..<inner]
                     (dot_step add mul h a_storage a_strides b_storage b_strides)
                     (0, a_pos, b_pos))
            (\<lambda>st. store h out out_pos (fst st))))))))"

definition tensor_matrix_multiply ::
  "('a \<Rightarrow> 'a \<Rightarrow> 'a) \<Rightarrow> ('a \<Rightarrow> 'a \<Rightarrow> 'a) \<Rightarrow>
   ref \<Rightarrow> nat list \<Rightarrow> nat list \<Rightarrow> ref \<Rightarrow> nat list \<Rightarrow> nat list \<Rightarrow> ref \<Rightarrow> nat list \<Rightarrow> nat list \<Rightarrow>
   'a::zero heap \<Rightarrow> error + 'a heap" where
  "tensor_matrix_multiply add mul out out_shape out_strides a_storage a_shape a_strides
     b_storage b_shape b_strides h =
     then_do (batch_stride a_shape a_strides) (\<lambda>a_batch_stride.
     then_do (batch_stride b_shape b_strides) (\<lambda>b_batch_stride.
     then_do (get_at out_shape 0) (\<lambda>batches.
       for_loop [0..<batches] (\<lambda>n h.
         then_do (get_at out_shape 1) (\<lambda>rows.
           for_loop [0..<rows] (\<lambda>i h.
             then_do (get_at out_shape 2) (\<lambda>cols.
               for_loop [0..<cols]
                 (matmul_cell add mul out out_strides a_storage a_shape a_strides
                    b_storage b_strides a_batch_stride b_batch_stride n i)
                 h))
             h))
         h)))"

section \<open>The operations of \<^verbatim>\<open>FastOps\<close>\<close>

text \<open>
  A tensor as the operations see it: what \<^verbatim>\<open>Tensor.tuple()\<close> returns, together
  with \<^verbatim>\<open>Tensor.shape\<close>.
\<close>

record 'a tensor =
  storage :: "'a list"
  shape :: "nat list"
  strides :: "nat list"

text \<open>
  Modelled from the spec: the tensor class (\<^verbatim>\<open>zeros\<close>, \<^verbatim>\<open>contiguous\<close>,
  \<^verbatim>\<open>view\<close>) is not among the sources. Following section 6 of the spec the caller
  allocates an output buffer sized to the output shape; the fresh tensor has the canonical
  row-major layout that section 3 names, whose last axis varies fastest, as in
  \<^verbatim>\<open>to_index\<close>.
\<close>

fun strides_from_shape :: "nat list \<Rightarrow> nat list" where
  "strides_from_shape [] = []"
| "strides_from_shape (s # ss) = prod_list ss # strides_from_shape ss"

definition zeros :: "nat list \<Rightarrow> 'a::zero tensor" where
  "zeros shp =
     \<lparr>storage = replicate (prod_list shp) 0, shape = shp, strides = strides_from_shape shp\<rparr>"

text \<open>
  Modelled from the spec: a view shares the storage and lays the new shape out row-major;
  it is only taken of tensors that are row-major already.
\<close>

definition view :: "'a tensor \<Rightarrow> nat list \<Rightarrow> 'a tensor" where
  "view t shp = \<lparr>storage = storage t, shape = shp, strides = strides_from_shape shp\<rparr>"

text \<open>The store a call of a kernel runs in: buffer \<open>r\<close> is the \<open>r\<close>-th of the list.\<close>

definition heap_of :: "'a list list \<Rightarrow> 'a heap" where
  "heap_of bufs r = (if r < length bufs then bufs ! r else [])"

text \<open>\<^verbatim>\<open>FastOps.map(fn)(a, out)\<close>\<close>

definition FastOps_map ::
  "('a::zero \<Rightarrow> 'a) \<Rightarrow> nat \<Rightarrow> 'a tensor \<Rightarrow> 'a tensor option \<Rightarrow> error + 'a tensor" where
  "FastOps_map fn max_dims a out_arg =
     (let out = (case out_arg of None \<Rightarrow> zeros (shape a) | Some t \<Rightarrow> t)
      in then_do (tensor_map fn max_dims 0 (shape out) (strides out) 1 (shape a) (strides a)
                    (heap_of [storage out, storage a]))
           (\<lambda>h. Inr (out\<lparr>storage := h 0\<rparr>)))"

text \<open>\<^verbatim>\<open>FastOps.zip(fn)(a, b)\<close>\<close>

definition FastOps_zip ::
  "('a::zero \<Rightarrow> 'a \<Rightarrow> 'a) \<Rightarrow> nat \<Rightarrow> 'a tensor \<Rightarrow> 'a tensor \<Rightarrow> error + 'a tensor" where
  "FastOps_zip fn max_dims a b =
     then_do (shape_broadcast (shape a) (shape b)) (\<lambda>c_shape.
       let out = zeros c_shape
       in then_do (tensor_zip fn max_dims 0 (shape out) (strides out)
                     1 (shape a) (strides a) 2 (shape b) (strides b)
                     (heap_of [storage out, storage a, storage b]))
            (\<lambda>h. Inr (out\<lparr>storage := h 0\<rparr>)))"

text \<open>\<^verbatim>\<open>FastOps.reduce(fn, start)(a, dim)\<close>; \<open>axis\<close> is the argument \<^verbatim>\<open>dim\<close>.\<close>

definition FastOps_reduce ::
  "('a::zero \<Rightarrow> 'a \<Rightarrow> 'a) \<Rightarrow> 'a \<Rightarrow> nat \<Rightarrow> 'a tensor \<Rightarrow> int \<Rightarrow> error + 'a tensor" where
  "FastOps_reduce fn start max_dims a axis =
     then_do (py_set (shape a) axis 1) (\<lambda>out_shape.
       let out = zeros out_shape;
           out = out\<lparr>storage := replicate (length (storage out)) start\<rparr>
       in then_do (tensor_reduce fn max_dims 0 (shape out) (strides out)
                     1 (shape a) (strides a) axis (heap_of [storage out, storage a]))
            (\<lambda>h. Inr (out\<lparr>storage := h 0\<rparr>)))"

text \<open>
  Modelled from the spec: \<^verbatim>\<open>a.contiguous().view(1, a.shape[0], a.shape[1])\<close>, the
  promotion of a rank-2 operand by a batch axis of extent 1. The row-major copy is the
  identity map into a fresh tensor.
\<close>

definition contiguous :: "nat \<Rightarrow> 'a::zero tensor \<Rightarrow> error + 'a tensor" where
  "contiguous max_dims a = FastOps_map (\<lambda>x. x) max_dims a None"

definition promote :: "nat \<Rightarrow> 'a::zero tensor \<Rightarrow> error + 'a tensor" where
  "promote max_dims a =
     (if length (shape a) = 2
      then then_do (contiguous max_dims a) (\<lambda>c. Inr (view c [1, shape a ! 0, shape a ! 1]))
      else Inr a)"

text \<open>
  \<^verbatim>\<open>FastOps.matrix_multiply(a, b)\<close> up to the allocation of the output (lines 116 to
  129): the promoted operands, the fresh output and the flag \<^verbatim>\<open>both_2d\<close>.
\<close>

definition matrix_multiply_setup ::
  "nat \<Rightarrow> 'a::zero tensor \<Rightarrow> 'a tensor \<Rightarrow> error + ('a tensor \<times> 'a tensor \<times> 'a tensor \<times> bool)"
  where
  "matrix_multiply_setup max_dims a0 b0 =
     then_do (promote max_dims a0) (\<lambda>a.
     then_do (promote max_dims b0) (\<lambda>b.
       let both_2d = (length (shape a0) = 2 \<and> length (shape b0) = 2)
       in then_do (shape_broadcast (take (length (shape a) - 2) (shape a))
                                   (take (length (shape b) - 2) (shape b))) (\<lambda>ls.
          then_do (get_from_end (shape a) 2) (\<lambda>rows.
          then_do (get_from_end (shape b) 1) (\<lambda>cols.
          then_do (get_from_end (shape a) 1) (\<lambda>inner_a.
          then_do (get_from_end (shape b) 2) (\<lambda>inner_b.
            if inner_a = inner_b
            then Inr (zeros (ls @ [rows, cols]), a, b, both_2d)
            else Inl DimensionMismatch)))))))"

text \<open>
  The kernel call and the squeeze (lines 131 to 136); \<open>add\<close> and \<open>mul\<close> are the
  scalars' \<^verbatim>\<open>+\<close> and \<^verbatim>\<open>*\<close> that the kernel applies.
\<close>

definition FastOps_matrix_multiply ::
  "('a \<Rightarrow> 'a \<Rightarrow> 'a) \<Rightarrow> ('a \<Rightarrow> 'a \<Rightarrow> 'a) \<Rightarrow>
   nat \<Rightarrow> 'a::zero tensor \<Rightarrow> 'a tensor \<Rightarrow> error + 'a tensor" where
  "FastOps_matrix_multiply add mul max_dims a0 b0 =
     then_do (matrix_multiply_setup max_dims a0 b0) (\<lambda>(out, a, b, both_2d).
     then_do (tensor_matrix_multiply add mul 0 (shape out) (strides out)
                1 (shape a) (strides a) 2 (shape b) (strides b)
                (heap_of [storage out, storage a, storage b])) (\<lambda>h.
       let out = out\<lparr>storage := h 0\<rparr>
       in if both_2d
          then then_do (get_at (shape out) 1) (\<lambda>rows.
               then_do (get_at (shape out) 2) (\<lambda>cols. Inr (view out [rows, cols])))
          else Inr out))"

section \<open>Well-formed arguments\<close>

text \<open>
  The coordinates of a shape, in row-major order, and the invariant of section 3 of the
  spec that a storage buffer of \<open>n\<close> cells holds every position reachable from a shape and
  its strides.
\<close>

definition indices :: "nat list \<Rightarrow> nat list list" where
  "indices shp = product_lists (map (\<lambda>s. [0..<s]) shp)"

definition in_bounds :: "nat list \<Rightarrow> nat list \<Rightarrow> nat \<Rightarrow> bool" where
  "in_bounds shp strd n = (\<forall>c\<in>set (indices shp). index_to_position c strd < n)"

text \<open>No two coordinates of the shape share a position.\<close>

definition disjoint_cells :: "nat list \<Rightarrow> nat list \<Rightarrow> bool" where
  "disjoint_cells shp strd = distinct (map (\<lambda>c. index_to_position c strd) (indices shp))"

text \<open>
  A tensor whose stride tuple has the rank of its shape, whose rank fits an index buffer and
  whose storage holds every position of its shape.
\<close>

definition well_formed :: "nat \<Rightarrow> 'a tensor \<Rightarrow> bool" where
  "well_formed max_dims t \<longleftrightarrow>
     length (strides t) = length (shape t) \<and> length (shape t) \<le> max_dims \<and>
     in_bounds (shape t) (strides t) (length (storage t))"

text \<open>
  The shape of an operand of the matrix product after its promotion, in the words of
  section 4.6 of the spec (a rank-2 shape gets a leading batch axis of extent 1), and the
  batch prefix of a shape: all but its last two axes.
\<close>

definition promoted_shape :: "nat list \<Rightarrow> nat list" where
  "promoted_shape shp = (if length shp = 2 then 1 # shp else shp)"

definition batch_prefix :: "nat list \<Rightarrow> nat list" where
  "batch_prefix shp = take (length shp - 2) shp"

section \<open>Examples of the spec\<close>

text \<open>The \<open>[2,3]\<close> tensor with rows \<open>[1,2,3]\<close> and \<open>[4,5,6]\<close> of section 8.\<close>

definition reduce_example :: "real tensor" where
  "reduce_example = \<lparr>storage = [1, 2, 3, 4, 5, 6], shape = [2, 3], strides = [3, 1]\<rparr>"

section \<open>Basic facts\<close>

lemma then_do_Inr [simp]: "then_do (Inr x) f = f x"
  by (simp add: then_do_def)

lemma then_do_Inl [simp]: "then_do (Inl e) f = Inl e"
  by (simp add: then_do_def)

lemma length_unravel [simp]: "length (unravel i ss) = length ss"
  by (induction ss arbitrary: i) auto

lemma length_coordinate [simp]: "length (coordinate i shp) = length shp"
  by (simp add: coordinate_def)

lemma unravel_append:
  "unravel i (xs @ ys) = unravel i xs @ unravel (i div prod_list xs) ys"
  by (induction xs arbitrary: i) (auto simp: div_mult2_eq)

lemma coordinate_Cons:
  "coordinate i (s # ss) = (i div prod_list ss mod s) # coordinate i ss"
  by (simp add: coordinate_def unravel_append)

lemma coordinate_Nil [simp]: "coordinate i [] = []"
  by (simp add: coordinate_def)

lemma index_to_position_Cons [simp]:
  "index_to_position (x # xs) (s # ss) = x * s + index_to_position xs ss"
  by (simp add: index_to_position_def)

lemma index_to_position_Nil [simp]: "index_to_position [] ss = 0" "index_to_position xs [] = 0"
  by (simp_all add: index_to_position_def)

lemma position_coordinate_mod:
  "index_to_position (coordinate i shp) (strides_from_shape shp) = i mod prod_list shp"
proof (induction shp)
  case Nil
  then show ?case by simp
next
  case (Cons s ss)
  have "i mod (prod_list ss * s) = prod_list ss * (i div prod_list ss mod s) + i mod prod_list ss"
    by (rule mod_mult2_eq)
  with Cons show ?case
    by (simp add: coordinate_Cons mult.commute)
qed

lemma position_coordinate:
  "i < prod_list shp \<Longrightarrow> index_to_position (coordinate i shp) (strides_from_shape shp) = i"
  by (simp add: position_coordinate_mod)

lemma coordinate_valid:
  "0 \<notin> set shp \<Longrightarrow> list_all2 (<) (coordinate i shp) shp"
  by (induction shp) (auto simp: coordinate_Cons)

lemma prod_list_pos: "i < prod_list shp \<Longrightarrow> 0 \<notin> set (shp :: nat list)"
  using prod_list_zero_iff [of shp] by auto

lemma mod_mult_mod: "(i::nat) mod (s * q) mod s = i mod s"
  by (simp add: mod_mod_cancel)

lemma mod_mult_div: "(i::nat) mod (s * q) div s = i div s mod q"
  using mod_mult2_eq [of i s q] by (cases "s = 0") simp_all

lemma unravel_mod: "unravel (i mod prod_list ss) ss = unravel i ss"
proof (induction ss arbitrary: i)
  case Nil
  then show ?case by simp
next
  case (Cons s ss)
  have "unravel (i mod (s * prod_list ss) div s) ss = unravel (i div s) ss"
    using Cons [of "i div s"] by (simp add: mod_mult_div)
  then show ?case by (simp add: mod_mult_mod)
qed

lemma coordinate_mod: "coordinate (i mod prod_list shp) shp = coordinate i shp"
  using unravel_mod [of i "rev shp"] by (simp add: coordinate_def)

lemma coordinate_position:
  "list_all2 (<) c shp \<Longrightarrow>
     coordinate (index_to_position c (strides_from_shape shp)) shp = c \<and>
     index_to_position c (strides_from_shape shp) < prod_list shp"
proof (induction c shp rule: list_all2_induct)
  case Nil
  then show ?case by simp
next
  case (Cons x xs s ss)
  let ?r = "index_to_position xs (strides_from_shape ss)"
  let ?P = "prod_list ss"
  have r: "?r < ?P" and c: "coordinate ?r ss = xs" using Cons by auto
  have "coordinate (x * ?P + ?r) ss = coordinate ((x * ?P + ?r) mod ?P) ss"
    by (simp only: coordinate_mod)
  also have "\<dots> = xs" using r c by simp
  finally have tl: "coordinate (x * ?P + ?r) ss = xs" .
  have hd: "(x * ?P + ?r) div ?P mod s = x" using r Cons.hyps(1) by simp
  have "x * ?P + ?r < s * ?P"
  proof -
    have "x * ?P + ?r < x * ?P + ?P" using r by simp
    also have "\<dots> = (x + 1) * ?P" by simp
    also have "\<dots> \<le> s * ?P" using Cons.hyps(1) by (intro mult_le_mono1) simp
    finally show ?thesis .
  qed
  then show ?case using tl hd by (simp add: coordinate_Cons)
qed

section \<open>Index buffers, loops and the store\<close>

lemma to_index_replicate:
  "length shp \<le> md \<Longrightarrow>
     to_index i shp (replicate md 0) = Inr (coordinate i shp @ replicate (md - length shp) 0)"
  by (simp add: to_index_def)

lemma broadcast_index_replicate:
  "length shp \<le> md \<Longrightarrow>
     broadcast_index big_index big_shape shp (replicate md 0) =
       Inr (project big_index big_shape shp @ replicate (md - length shp) 0)"
  by (simp add: broadcast_index_def)

lemma index_to_position_append:
  "length strd \<le> length idx \<Longrightarrow>
     index_to_position (idx @ rest) strd = index_to_position idx strd"
  by (simp add: index_to_position_def zip_append1)

lemma length_project [simp]: "length (project big_index big_shape shp) = length shp"
  by (simp add: project_def)

lemma project_append:
  "length big_shape \<le> length c \<Longrightarrow> length shp \<le> length big_shape \<Longrightarrow>
     project (c @ rest) big_shape shp = project c big_shape shp"
  by (auto simp: project_def nth_append)

lemma for_loop_append:
  "for_loop (xs @ ys) body s = then_do (for_loop xs body s) (for_loop ys body)"
  by (induction xs arbitrary: s) (auto simp: then_do_def split: sum.splits)

lemma load_in_range: "p < length (h r) \<Longrightarrow> load h r p = Inr (h r ! p)"
  by (simp add: load_def get_at_def)

lemma store_in_range: "p < length (h r) \<Longrightarrow> store h r p v = Inr (h(r := (h r)[p := v]))"
  by (simp add: store_def set_at_def)

text \<open>A loop each of whose iterations rewrites one cell of the buffer \<open>out\<close>.\<close>

lemma for_loop_cells:
  assumes step: "\<And>x h'. x \<in> set xs \<Longrightarrow> (\<forall>r. r \<noteq> out \<longrightarrow> h' r = h r) \<Longrightarrow>
            length (h' out) = length (h out) \<Longrightarrow>
            body x h' = Inr (h'(out := (h' out)[w x := g x (h' out ! w x)]))"
    and dist: "distinct (map w xs)"
    and range: "\<forall>x\<in>set xs. w x < length (h out)"
  shows "\<exists>h'. for_loop xs body h = Inr h' \<and> (\<forall>r. r \<noteq> out \<longrightarrow> h' r = h r) \<and>
           length (h' out) = length (h out) \<and>
           (\<forall>x\<in>set xs. h' out ! w x = g x (h out ! w x)) \<and>
           (\<forall>p. p \<notin> w ` set xs \<longrightarrow> h' out ! p = h out ! p)"
  using assms
proof (induction xs rule: rev_induct)
  case Nil
  then show ?case by simp
next
  case (snoc x xs)
  have "\<exists>h'. for_loop xs body h = Inr h' \<and> (\<forall>r. r \<noteq> out \<longrightarrow> h' r = h r) \<and>
           length (h' out) = length (h out) \<and>
           (\<forall>x\<in>set xs. h' out ! w x = g x (h out ! w x)) \<and>
           (\<forall>p. p \<notin> w ` set xs \<longrightarrow> h' out ! p = h out ! p)"
    using snoc.prems by (intro snoc.IH) auto
  then obtain h1 where h1: "for_loop xs body h = Inr h1" "\<forall>r. r \<noteq> out \<longrightarrow> h1 r = h r"
      "length (h1 out) = length (h out)" "\<forall>x\<in>set xs. h1 out ! w x = g x (h out ! w x)"
      "\<forall>p. p \<notin> w ` set xs \<longrightarrow> h1 out ! p = h out ! p"
    by blast
  define h2 where "h2 = h1(out := (h1 out)[w x := g x (h1 out ! w x)])"
  have b: "body x h1 = Inr h2"
    unfolding h2_def using h1(2,3) by (intro snoc.prems(1)) auto
  have wx: "w x \<notin> w ` set xs" "w x < length (h out)" using snoc.prems(2,3) by auto
  have run: "for_loop (xs @ [x]) body h = Inr h2"
    by (simp add: for_loop_append h1(1) b)
  have "h2 out ! w x = g x (h out ! w x)"
    using wx h1(3,5) by (simp add: h2_def)
  moreover have "\<forall>y\<in>set xs. h2 out ! w y = g y (h out ! w y)"
  proof
    fix y assume y: "y \<in> set xs"
    then have "w y \<noteq> w x" using wx(1) by (metis imageI)
    then show "h2 out ! w y = g y (h out ! w y)" using h1(4) y by (simp add: h2_def)
  qed
  moreover have "\<forall>p. p \<notin> w ` set (xs @ [x]) \<longrightarrow> h2 out ! p = h out ! p"
    using h1(5) by (auto simp: h2_def nth_list_update)
  moreover have "\<forall>r. r \<noteq> out \<longrightarrow> h2 r = h r" using h1(2) by (simp add: h2_def)
  moreover have "length (h2 out) = length (h out)" using h1(3) by (simp add: h2_def)
  ultimately show ?case using run by auto
qed

section \<open>The reduce kernel\<close>

lemma reduce_inner_loop:
  assumes "out \<noteq> a" "rd < length c" "length a_strides \<le> length c"
    and "p0 < length (h out)"
    and "\<forall>j\<in>set js. index_to_position (c[rd := j]) a_strides < length (h a)"
    and "length c' = length c" "\<forall>j. c'[rd := j] = c[rd := j]"
  shows "\<exists>c''. for_loop js (reduce_step fn out p0 a a_strides (int rd)) (c' @ pad, h) =
           Inr (c'' @ pad,
                h(out := (h out)[p0 := foldl fn (h out ! p0)
                   (map (\<lambda>j. h a ! index_to_position (c[rd := j]) a_strides) js)])) \<and>
           length c'' = length c \<and> (\<forall>j. c''[rd := j] = c[rd := j])"
  using assms
proof (induction js arbitrary: c' h)
  case Nil
  then show ?case by auto
next
  case (Cons j js)
  let ?p = "index_to_position (c[rd := j]) a_strides"
  define h1 where "h1 = h(out := (h out)[p0 := fn (h out ! p0) (h a ! ?p)])"
  have upd: "(c' @ pad)[rd := j] = c[rd := j] @ pad"
    using Cons.prems by (simp add: list_update_append)
  have step: "reduce_step fn out p0 a a_strides (int rd) j (c' @ pad, h) = Inr (c[rd := j] @ pad, h1)"
    using Cons.prems
    by (simp add: reduce_step_def py_set_def py_index_def upd index_to_position_append
        load_in_range store_in_range h1_def)
  have h1a: "h1 a = h a" and h1o: "h1 out = (h out)[p0 := fn (h out ! p0) (h a ! ?p)]"
    using Cons.prems(1) by (auto simp: h1_def)
  have "\<exists>c''. for_loop js (reduce_step fn out p0 a a_strides (int rd)) (c[rd := j] @ pad, h1) =
           Inr (c'' @ pad,
                h1(out := (h1 out)[p0 := foldl fn (h1 out ! p0)
                   (map (\<lambda>j. h1 a ! index_to_position (c[rd := j]) a_strides) js)])) \<and>
           length c'' = length c \<and> (\<forall>j. c''[rd := j] = c[rd := j])"
    using Cons.prems by (intro Cons.IH) (auto simp: h1a h1o)
  then obtain c'' where c'':
    "for_loop js (reduce_step fn out p0 a a_strides (int rd)) (c[rd := j] @ pad, h1) =
           Inr (c'' @ pad,
                h1(out := (h1 out)[p0 := foldl fn (h1 out ! p0)
                   (map (\<lambda>j. h1 a ! index_to_position (c[rd := j]) a_strides) js)]))"
    "length c'' = length c" "\<forall>j. c''[rd := j] = c[rd := j]"
    by blast
  have "h1(out := (h1 out)[p0 := foldl fn (h1 out ! p0)
                   (map (\<lambda>j. h1 a ! index_to_position (c[rd := j]) a_strides) js)]) =
        h(out := (h out)[p0 := foldl fn (h out ! p0)
                   (map (\<lambda>j. h a ! index_to_position (c[rd := j]) a_strides) (j # js))])"
    using Cons.prems(4) by (simp add: h1a h1o) (simp add: h1_def)
  then show ?case using step c'' by auto
qed

lemma reduce_cell_update:
  assumes "out \<noteq> a" "rd < length out_shape" "length out_shape \<le> md"
    and "length a_strides = length out_shape" "length out_strides = length out_shape"
    and "index_to_position (coordinate i out_shape) out_strides < length (h out)"
    and "\<forall>j<n. index_to_position ((coordinate i out_shape)[rd := j]) a_strides < length (h a)"
  shows "reduce_cell fn md out out_shape out_strides a a_strides (int rd) n i h =
          Inr (h(out := (h out)[index_to_position (coordinate i out_shape) out_strides :=
                 foldl fn (h out ! index_to_position (coordinate i out_shape) out_strides)
                   (map (\<lambda>j. h a ! index_to_position ((coordinate i out_shape)[rd := j]) a_strides)
                      [0..<n])]))"
proof -
  let ?c = "coordinate i out_shape"
  let ?pad = "replicate (md - length out_shape) (0::nat)"
  let ?p0 = "index_to_position ?c out_strides"
  have "\<exists>c''. for_loop [0..<n] (reduce_step fn out ?p0 a a_strides (int rd)) (?c @ ?pad, h) =
           Inr (c'' @ ?pad,
                h(out := (h out)[?p0 := foldl fn (h out ! ?p0)
                   (map (\<lambda>j. h a ! index_to_position (?c[rd := j]) a_strides) [0..<n])])) \<and>
           length c'' = length ?c \<and> (\<forall>j. c''[rd := j] = ?c[rd := j])"
    using assms by (intro reduce_inner_loop) auto
  then show ?thesis
    using assms by (auto simp: reduce_cell_def to_index_replicate index_to_position_append)
qed

lemma tensor_reduce_cells:
  assumes "out \<noteq> a" "rd < length a_shape" "length out_shape \<le> md"
    and "length a_shape = length out_shape"
    and "length a_strides = length out_shape" "length out_strides = length out_shape"
    and "distinct (map (\<lambda>i. index_to_position (coordinate i out_shape) out_strides)
                    [0..<prod_list out_shape])"
    and "\<forall>i<prod_list out_shape.
           index_to_position (coordinate i out_shape) out_strides < length (h out)"
    and "\<forall>i<prod_list out_shape. \<forall>j<a_shape ! rd.
           index_to_position ((coordinate i out_shape)[rd := j]) a_strides < length (h a)"
  shows "\<exists>h'. tensor_reduce fn md out out_shape out_strides a a_shape a_strides (int rd) h = Inr h' \<and>
          (\<forall>r. r \<noteq> out \<longrightarrow> h' r = h r) \<and> length (h' out) = length (h out) \<and>
          (\<forall>i<prod_list out_shape.
             h' out ! index_to_position (coordinate i out_shape) out_strides =
               foldl fn (h out ! index_to_position (coordinate i out_shape) out_strides)
                 (map (\<lambda>j. h a ! index_to_position ((coordinate i out_shape)[rd := j]) a_strides)
                    [0..<a_shape ! rd])) \<and>
          (\<forall>p. p \<notin> (\<lambda>i. index_to_position (coordinate i out_shape) out_strides) `
                    {..<prod_list out_shape} \<longrightarrow> h' out ! p = h out ! p)"
proof -
  let ?w = "\<lambda>i. index_to_position (coordinate i out_shape) out_strides"
  let ?g = "\<lambda>i v. foldl fn v
     (map (\<lambda>j. h a ! index_to_position ((coordinate i out_shape)[rd := j]) a_strides)
        [0..<a_shape ! rd])"
  let ?body = "reduce_cell fn md out out_shape out_strides a a_strides (int rd) (a_shape ! rd)"
  have "\<exists>h'. for_loop [0..<prod_list out_shape] ?body h = Inr h' \<and>
           (\<forall>r. r \<noteq> out \<longrightarrow> h' r = h r) \<and> length (h' out) = length (h out) \<and>
           (\<forall>x\<in>set [0..<prod_list out_shape]. h' out ! ?w x = ?g x (h out ! ?w x)) \<and>
           (\<forall>p. p \<notin> ?w ` set [0..<prod_list out_shape] \<longrightarrow> h' out ! p = h out ! p)"
  proof (rule for_loop_cells)
    fix x h'
    assume x: "x \<in> set [0..<prod_list out_shape]" and fr: "\<forall>r. r \<noteq> out \<longrightarrow> h' r = h r"
      and len: "length (h' out) = length (h out)"
    have a: "h' a = h a" using fr assms(1) by auto
    show "?body x h' = Inr (h'(out := (h' out)[?w x := ?g x (h' out ! ?w x)]))"
      using reduce_cell_update [of out a rd out_shape md a_strides out_strides x h' "a_shape ! rd" fn]
        assms x len by (simp add: a)
  qed (use assms in auto)
  then obtain h' where h': "for_loop [0..<prod_list out_shape] ?body h = Inr h'"
      "\<forall>r. r \<noteq> out \<longrightarrow> h' r = h r" "length (h' out) = length (h out)"
      "\<forall>x\<in>set [0..<prod_list out_shape]. h' out ! ?w x = ?g x (h out ! ?w x)"
      "\<forall>p. p \<notin> ?w ` set [0..<prod_list out_shape] \<longrightarrow> h' out ! p = h out ! p"
    by blast
  have run: "tensor_reduce fn md out out_shape out_strides a a_shape a_strides (int rd) h = Inr h'"
    using assms(2,4) h'(1) by (simp add: tensor_reduce_def py_get_def py_index_def)
  show ?thesis
    using run h'(2,3,4,5) by (intro exI [of _ h']) (simp add: atLeast0LessThan)
qed

section \<open>Coordinates and row-major layout\<close>

lemma set_indices: "set (indices shp) = {c. list_all2 (<) c shp}"
  by (auto simp: indices_def product_lists_set list_all2_map2)

lemma length_of_index: "c \<in> set (indices shp) \<Longrightarrow> length c = length shp"
  by (auto simp: set_indices dest: list_all2_lengthD)

lemma coordinate_in_indices: "i < prod_list shp \<Longrightarrow> coordinate i shp \<in> set (indices shp)"
  by (simp add: set_indices coordinate_valid prod_list_pos)

lemma indices_coordinate:
  "c \<in> set (indices shp) \<Longrightarrow> \<exists>i<prod_list shp. coordinate i shp = c"
  using coordinate_position [of c shp] by (auto simp: set_indices)

lemma coordinate_inj:
  "i < prod_list shp \<Longrightarrow> j < prod_list shp \<Longrightarrow> coordinate i shp = coordinate j shp \<Longrightarrow> i = j"
  by (metis position_coordinate)

lemma disjoint_cells_ordinals:
  assumes "disjoint_cells shp strd"
  shows "distinct (map (\<lambda>i. index_to_position (coordinate i shp) strd) [0..<prod_list shp])"
proof -
  have inj: "inj_on (\<lambda>c. index_to_position c strd) (set (indices shp))"
    using assms by (simp add: disjoint_cells_def distinct_map)
  have "inj_on (\<lambda>i. index_to_position (coordinate i shp) strd) {0..<prod_list shp}"
  proof (rule inj_onI)
    fix i j assume i: "i \<in> {0..<prod_list shp}" and j: "j \<in> {0..<prod_list shp}"
      and eq: "index_to_position (coordinate i shp) strd = index_to_position (coordinate j shp) strd"
    have "coordinate i shp = coordinate j shp"
      using inj i j eq by (auto dest!: inj_onD simp: coordinate_in_indices)
    then show "i = j" using i j by (auto intro: coordinate_inj)
  qed
  then show ?thesis by (simp add: distinct_map)
qed

lemma in_boundsD:
  "in_bounds shp strd n \<Longrightarrow> c \<in> set (indices shp) \<Longrightarrow> index_to_position c strd < n"
  by (simp add: in_bounds_def)

lemma reduced_index:
  assumes "c \<in> set (indices (a_shape[rd := 1]))" "rd < length a_shape" "j < a_shape ! rd"
  shows "c[rd := j] \<in> set (indices a_shape)"
proof -
  have "list_all2 (<) (c[rd := j]) ((a_shape[rd := 1])[rd := a_shape ! rd])"
    using assms by (intro list_all2_update_cong) (auto simp: set_indices)
  then show ?thesis by (simp add: set_indices)
qed

lemma tensor_reduce_fold:
  assumes "out \<noteq> a_storage"
    and "reduce_dim < length a_shape" "length a_shape \<le> max_dims"
    and "out_shape = a_shape[reduce_dim := 1]"
    and "length a_strides = length a_shape" "length out_strides = length a_shape"
    and "in_bounds a_shape a_strides (length (h a_storage))"
    and "disjoint_cells out_shape out_strides"
    and "in_bounds out_shape out_strides (length (h out))"
  shows "\<exists>h'. tensor_reduce fn max_dims out out_shape out_strides a_storage a_shape a_strides
                 (int reduce_dim) h = Inr h' \<and>
           (\<forall>r. r \<noteq> out \<longrightarrow> h' r = h r) \<and> length (h' out) = length (h out) \<and>
           (\<forall>c\<in>set (indices out_shape).
              h' out ! index_to_position c out_strides =
                foldl fn (h out ! index_to_position c out_strides)
                  (map (\<lambda>j. h a_storage ! index_to_position (c[reduce_dim := j]) a_strides)
                     [0..<a_shape ! reduce_dim]))"
proof -
  have len: "length out_shape = length a_shape" using assms(4) by simp
  have reads: "\<forall>i<prod_list out_shape. \<forall>j<a_shape ! reduce_dim.
           index_to_position ((coordinate i out_shape)[reduce_dim := j]) a_strides
             < length (h a_storage)"
    using assms(2,4,7) by (auto intro!: in_boundsD [of a_shape] reduced_index coordinate_in_indices)
  have writes: "\<forall>i<prod_list out_shape.
           index_to_position (coordinate i out_shape) out_strides < length (h out)"
    using assms(9) by (auto intro!: in_boundsD [of out_shape] coordinate_in_indices)
  have "\<exists>h'. tensor_reduce fn max_dims out out_shape out_strides a_storage a_shape a_strides
          (int reduce_dim) h = Inr h' \<and>
          (\<forall>r. r \<noteq> out \<longrightarrow> h' r = h r) \<and> length (h' out) = length (h out) \<and>
          (\<forall>i<prod_list out_shape.
             h' out ! index_to_position (coordinate i out_shape) out_strides =
               foldl fn (h out ! index_to_position (coordinate i out_shape) out_strides)
                 (map (\<lambda>j. h a_storage !
                        index_to_position ((coordinate i out_shape)[reduce_dim := j]) a_strides)
                    [0..<a_shape ! reduce_dim])) \<and>
          (\<forall>p. p \<notin> (\<lambda>i. index_to_position (coordinate i out_shape) out_strides) `
                    {..<prod_list out_shape} \<longrightarrow> h' out ! p = h out ! p)"
  proof (rule tensor_reduce_cells)
    show "distinct (map (\<lambda>i. index_to_position (coordinate i out_shape) out_strides)
                    [0..<prod_list out_shape])"
      by (rule disjoint_cells_ordinals [OF assms(8)])
  qed (use assms(1,2,3,5,6) len reads writes in simp_all)
  then obtain h' where h': "tensor_reduce fn max_dims out out_shape out_strides a_storage a_shape
        a_strides (int reduce_dim) h = Inr h'"
      "\<forall>r. r \<noteq> out \<longrightarrow> h' r = h r" "length (h' out) = length (h out)"
      "\<forall>i<prod_list out_shape.
             h' out ! index_to_position (coordinate i out_shape) out_strides =
               foldl fn (h out ! index_to_position (coordinate i out_shape) out_strides)
                 (map (\<lambda>j. h a_storage !
                        index_to_position ((coordinate i out_shape)[reduce_dim := j]) a_strides)
                    [0..<a_shape ! reduce_dim])"
    by blast
  have "\<forall>c\<in>set (indices out_shape).
              h' out ! index_to_position c out_strides =
                foldl fn (h out ! index_to_position c out_strides)
                  (map (\<lambda>j. h a_storage ! index_to_position (c[reduce_dim := j]) a_strides)
                     [0..<a_shape ! reduce_dim])"
  proof
    fix c assume "c \<in> set (indices out_shape)"
    then obtain i where i: "i < prod_list out_shape" and c: "c = coordinate i out_shape"
      using indices_coordinate by blast
    show "h' out ! index_to_position c out_strides =
                foldl fn (h out ! index_to_position c out_strides)
                  (map (\<lambda>j. h a_storage ! index_to_position (c[reduce_dim := j]) a_strides)
                     [0..<a_shape ! reduce_dim])"
      unfolding c using h'(4) i by blast
  qed
  then show ?thesis using h'(1,2,3) by blast
qed

lemma for_loop_skip: "(\<And>x s. x \<in> set xs \<Longrightarrow> body x s = Inr s) \<Longrightarrow> for_loop xs body s = Inr s"
  by (induction xs) auto

lemma py_index_nat [simp]: "k < n \<Longrightarrow> py_index n (int k) = Inr k"
  by (simp add: py_index_def)

lemma py_index_range: "py_index n i = Inr k \<Longrightarrow> k < n"
  by (auto simp: py_index_def Let_def split: if_splits)

lemma tensor_reduce_empty:
  assumes "py_index (length a_shape) rd = Inr k" "a_shape ! k = 0" "length out_shape \<le> md"
  shows "tensor_reduce fn md out out_shape out_strides a a_shape a_strides rd h = Inr h"
  using assms
  by (simp add: tensor_reduce_def py_get_def reduce_cell_def to_index_replicate for_loop_skip)

lemma length_strides_from_shape [simp]: "length (strides_from_shape shp) = length shp"
  by (induction shp) auto

lemma heap_of_simps [simp]:
  "heap_of (x # xs) 0 = x" "heap_of (x # xs) (Suc n) = heap_of xs n" "heap_of [] n = []"
  by (auto simp: heap_of_def)

lemma distinct_indices: "distinct (indices shp)"
  by (simp add: indices_def distinct_product_lists)

lemma row_major_disjoint: "disjoint_cells shp (strides_from_shape shp)"
proof -
  have "inj_on (\<lambda>c. index_to_position c (strides_from_shape shp)) (set (indices shp))"
    by (rule inj_onI) (metis coordinate_position set_indices mem_Collect_eq)
  then show ?thesis by (simp add: disjoint_cells_def distinct_map distinct_indices)
qed

lemma row_major_in_bounds: "in_bounds shp (strides_from_shape shp) (prod_list shp)"
  using coordinate_position by (auto simp: in_bounds_def set_indices)

section \<open>Elementwise kernels\<close>

lemma map_general_update:
  assumes "length out_shape \<le> md" "length in_shape \<le> length out_shape"
    and "length out_strides = length out_shape" "length in_strides = length in_shape"
    and "index_to_position (coordinate i out_shape) out_strides < length (h out)"
    and "index_to_position (project (coordinate i out_shape) out_shape in_shape) in_strides
           < length (h a)"
  shows "map_general fn md out out_shape out_strides a in_shape in_strides i h =
           Inr (h(out := (h out)[index_to_position (coordinate i out_shape) out_strides :=
                  fn (h a ! index_to_position
                        (project (coordinate i out_shape) out_shape in_shape) in_strides)]))"
  using assms
  by (simp add: map_general_def to_index_replicate broadcast_index_replicate project_append
      index_to_position_append load_in_range store_in_range)

lemma map_fast_update:
  assumes "i < length (h out)" "i < length (h a)"
  shows "map_fast fn out a i h = Inr (h(out := (h out)[i := fn (h a ! i)]))"
  using assms by (simp add: map_fast_def load_in_range store_in_range)

lemma zip_general_update:
  assumes "length out_shape \<le> md" "length a_shape \<le> length out_shape"
    and "length b_shape \<le> length out_shape"
    and "length out_strides = length out_shape" "length a_strides = length a_shape"
    and "length b_strides = length b_shape"
    and "index_to_position (coordinate i out_shape) out_strides < length (h out)"
    and "index_to_position (project (coordinate i out_shape) out_shape a_shape) a_strides
           < length (h a)"
    and "index_to_position (project (coordinate i out_shape) out_shape b_shape) b_strides
           < length (h b)"
  shows "zip_general fn md out out_shape out_strides a a_shape a_strides b b_shape b_strides i h =
           Inr (h(out := (h out)[index_to_position (coordinate i out_shape) out_strides :=
                  fn (h a ! index_to_position
                        (project (coordinate i out_shape) out_shape a_shape) a_strides)
                     (h b ! index_to_position
                        (project (coordinate i out_shape) out_shape b_shape) b_strides)]))"
  using assms
  by (simp add: zip_general_def to_index_replicate broadcast_index_replicate project_append
      index_to_position_append load_in_range store_in_range)

lemma zip_fast_update:
  assumes "i < length (h out)" "i < length (h a)" "i < length (h b)"
  shows "zip_fast fn out a b i h = Inr (h(out := (h out)[i := fn (h a ! i) (h b ! i)]))"
  using assms by (simp add: zip_fast_def load_in_range store_in_range)

text \<open>The general path of a loop that writes one cell per coordinate.\<close>

lemma cells_by_coordinate:
  assumes step: "\<And>i h'. i < prod_list shp \<Longrightarrow> (\<forall>r. r \<noteq> out \<longrightarrow> h' r = h r) \<Longrightarrow>
            length (h' out) = length (h out) \<Longrightarrow>
            body i h' = Inr (h'(out := (h' out)[index_to_position (coordinate i shp) strd :=
                                 g (coordinate i shp)]))"
    and "disjoint_cells shp strd" "in_bounds shp strd (length (h out))"
  shows "\<exists>h'. for_loop [0..<prod_list shp] body h = Inr h' \<and> (\<forall>r. r \<noteq> out \<longrightarrow> h' r = h r) \<and>
           length (h' out) = length (h out) \<and>
           (\<forall>c\<in>set (indices shp). h' out ! index_to_position c strd = g c)"
proof -
  let ?w = "\<lambda>i. index_to_position (coordinate i shp) strd"
  have "\<exists>h'. for_loop [0..<prod_list shp] body h = Inr h' \<and> (\<forall>r. r \<noteq> out \<longrightarrow> h' r = h r) \<and>
           length (h' out) = length (h out) \<and>
           (\<forall>x\<in>set [0..<prod_list shp]. h' out ! ?w x = (\<lambda>i v. g (coordinate i shp)) x (h out ! ?w x)) \<and>
           (\<forall>p. p \<notin> ?w ` set [0..<prod_list shp] \<longrightarrow> h' out ! p = h out ! p)"
  proof (rule for_loop_cells)
    show "distinct (map ?w [0..<prod_list shp])"
      by (rule disjoint_cells_ordinals [OF assms(2)])
    show "\<forall>x\<in>set [0..<prod_list shp]. ?w x < length (h out)"
      using assms(3) by (auto intro!: in_boundsD [of shp] coordinate_in_indices)
  qed (use step in simp)
  then obtain h' where h': "for_loop [0..<prod_list shp] body h = Inr h'"
      "\<forall>r. r \<noteq> out \<longrightarrow> h' r = h r" "length (h' out) = length (h out)"
      "\<forall>x\<in>set [0..<prod_list shp]. h' out ! ?w x = g (coordinate x shp)"
    by blast
  have "\<forall>c\<in>set (indices shp). h' out ! index_to_position c strd = g c"
  proof
    fix c assume "c \<in> set (indices shp)"
    then obtain i where i: "i < prod_list shp" and c: "c = coordinate i shp"
      using indices_coordinate by blast
    show "h' out ! index_to_position c strd = g c"
      unfolding c using h'(4) i by simp
  qed
  then show ?thesis using h'(1,2,3) by blast
qed

text \<open>The fast path of a loop that writes cell \<open>i\<close> in iteration \<open>i\<close>.\<close>

lemma cells_by_ordinal:
  assumes step: "\<And>i h'. i < n \<Longrightarrow> (\<forall>r. r \<noteq> out \<longrightarrow> h' r = h r) \<Longrightarrow>
            length (h' out) = length (h out) \<Longrightarrow>
            body i h' = Inr (h'(out := (h' out)[i := g i]))"
    and "n \<le> length (h out)"
  shows "\<exists>h'. for_loop [0..<n] body h = Inr h' \<and> (\<forall>r. r \<noteq> out \<longrightarrow> h' r = h r) \<and>
           length (h' out) = length (h out) \<and> (\<forall>p<n. h' out ! p = g p)"
proof -
  have "\<exists>h'. for_loop [0..<n] body h = Inr h' \<and> (\<forall>r. r \<noteq> out \<longrightarrow> h' r = h r) \<and>
           length (h' out) = length (h out) \<and>
           (\<forall>x\<in>set [0..<n]. h' out ! (\<lambda>i. i) x = (\<lambda>i v. g i) x (h out ! (\<lambda>i. i) x)) \<and>
           (\<forall>p. p \<notin> (\<lambda>i. i) ` set [0..<n] \<longrightarrow> h' out ! p = h out ! p)"
    by (rule for_loop_cells) (use assms in auto)
  then show ?thesis by auto
qed

lemma broadcast_rev_fits:
  "broadcast_rev as bs = Inr cs \<Longrightarrow> 0 \<notin> set as \<Longrightarrow> 0 \<notin> set bs \<Longrightarrow>
     length cs = max (length as) (length bs) \<and>
     (\<forall>k<length as. as ! k = 1 \<or> as ! k = cs ! k) \<and>
     (\<forall>k<length bs. bs ! k = 1 \<or> bs ! k = cs ! k)"
proof (induction as bs arbitrary: cs rule: broadcast_rev.induct)
  case (1 bs)
  then show ?case by auto
next
  case (2 a as)
  then show ?case by auto
next
  case (3 a as b bs)
  from "3.prems"(1) have ok: "a = b \<or> a = 1 \<or> b = 1"
    by (auto split: if_splits)
  with "3.prems"(1) obtain cs' where cs': "broadcast_rev as bs = Inr cs'" "cs = max a b # cs'"
    by (auto simp: then_do_def split: sum.splits)
  have ih: "length cs' = max (length as) (length bs) \<and>
     (\<forall>k<length as. as ! k = 1 \<or> as ! k = cs' ! k) \<and>
     (\<forall>k<length bs. bs ! k = 1 \<or> bs ! k = cs' ! k)"
    using "3.IH" [OF ok cs'(1)] "3.prems"(2,3) by simp
  have a0: "a \<noteq> 0" "b \<noteq> 0" using "3.prems"(2,3) by auto
  have hd: "a = 1 \<or> a = max a b" "b = 1 \<or> b = max a b" using ok a0 by auto
  show ?case
    using ih hd by (auto simp: cs'(2) nth_Cons split: nat.splits)
qed

lemma shape_broadcast_fits:
  assumes "shape_broadcast a b = Inr c" "0 \<notin> set a" "0 \<notin> set b"
  shows "length a \<le> length c \<and> length b \<le> length c \<and>
     (\<forall>d<length a. a ! d = 1 \<or> a ! d = c ! (d + (length c - length a))) \<and>
     (\<forall>d<length b. b ! d = 1 \<or> b ! d = c ! (d + (length c - length b)))"
proof -
  from assms(1) obtain cs where cs: "broadcast_rev (rev a) (rev b) = Inr cs" "c = rev cs"
    by (auto simp: shape_broadcast_def then_do_def split: sum.splits)
  have f: "length cs = max (length a) (length b)"
    "\<forall>k<length a. rev a ! k = 1 \<or> rev a ! k = cs ! k"
    "\<forall>k<length b. rev b ! k = 1 \<or> rev b ! k = cs ! k"
    using broadcast_rev_fits [OF cs(1)] assms(2,3) by auto
  have nth: "\<And>xs d. d < length xs \<Longrightarrow> length xs \<le> length cs \<Longrightarrow>
      (rev xs ! (length xs - Suc d) = 1 \<or> rev xs ! (length xs - Suc d) = cs ! (length xs - Suc d)) \<Longrightarrow>
      xs ! d = 1 \<or> xs ! d = c ! (d + (length c - length xs))"
  proof -
    fix xs :: "nat list" and d
    assume d: "d < length xs" and le: "length xs \<le> length cs"
      and h: "rev xs ! (length xs - Suc d) = 1 \<or> rev xs ! (length xs - Suc d) = cs ! (length xs - Suc d)"
    have 1: "rev xs ! (length xs - Suc d) = xs ! d"
      using d by (simp add: rev_nth)
    have 2: "c ! (d + (length c - length xs)) = cs ! (length cs - Suc (d + (length cs - length xs)))"
      using d le by (simp add: cs(2) rev_nth)
    have 3: "length cs - Suc (d + (length cs - length xs)) = length xs - Suc d"
      using d le by arith
    show "xs ! d = 1 \<or> xs ! d = c ! (d + (length c - length xs))"
      using h by (simp add: 1 2 3)
  qed
  have "\<forall>d<length a. a ! d = 1 \<or> a ! d = c ! (d + (length c - length a))"
  proof (intro allI impI)
    fix d assume d: "d < length a"
    show "a ! d = 1 \<or> a ! d = c ! (d + (length c - length a))"
    proof (rule nth [OF d])
      show "length a \<le> length cs" using f(1) by simp
      show "rev a ! (length a - Suc d) = 1 \<or> rev a ! (length a - Suc d) = cs ! (length a - Suc d)"
        using f(2) d by simp
    qed
  qed
  moreover have "\<forall>d<length b. b ! d = 1 \<or> b ! d = c ! (d + (length c - length b))"
  proof (intro allI impI)
    fix d assume d: "d < length b"
    show "b ! d = 1 \<or> b ! d = c ! (d + (length c - length b))"
    proof (rule nth [OF d])
      show "length b \<le> length cs" using f(1) by simp
      show "rev b ! (length b - Suc d) = 1 \<or> rev b ! (length b - Suc d) = cs ! (length b - Suc d)"
        using f(3) d by simp
    qed
  qed
  ultimately show ?thesis using f(1) by (simp add: cs(2))
qed

lemma project_in_indices:
  assumes "c \<in> set (indices big)" "length shp \<le> length big"
    and "\<forall>d<length shp. shp ! d = 1 \<or> shp ! d = big ! (d + (length big - length shp))"
  shows "project c big shp \<in> set (indices shp)"
proof -
  have c: "length c = length big" "\<forall>d<length big. c ! d < big ! d"
    using assms(1) by (auto simp: set_indices list_all2_conv_all_nth)
  have "\<forall>d<length shp. project c big shp ! d < shp ! d"
    using assms(2,3) c by (auto simp: project_def)
  then show ?thesis by (simp add: set_indices list_all2_conv_all_nth)
qed

lemma project_same: "c \<in> set (indices shp) \<Longrightarrow> project c shp shp = c"
  by (auto simp: set_indices list_all2_conv_all_nth project_def intro!: nth_equalityI)

lemma broadcast_rev_same: "broadcast_rev as as = Inr as"
  by (induction as) auto

lemma shape_broadcast_same: "shape_broadcast a a = Inr a"
  by (simp add: shape_broadcast_def broadcast_rev_same)

lemma length_indices: "length (indices shp) = prod_list shp"
proof -
  have "foldr (*) (map length (map (\<lambda>s. [0..<s]) shp)) 1 = prod_list shp"
    by (induction shp) auto
  then show ?thesis by (simp add: indices_def length_product_lists)
qed

lemma compact_surj:
  assumes "disjoint_cells shp strd" "in_bounds shp strd (prod_list shp)" "p < prod_list shp"
  shows "\<exists>c\<in>set (indices shp). index_to_position c strd = p"
proof -
  let ?f = "\<lambda>c. index_to_position c strd"
  have "card (?f ` set (indices shp)) = prod_list shp"
    using assms(1) distinct_card [of "map ?f (indices shp)"]
    by (simp add: disjoint_cells_def length_indices)
  moreover have "?f ` set (indices shp) \<subseteq> {..<prod_list shp}"
    using assms(2) by (auto simp: in_bounds_def)
  ultimately have "?f ` set (indices shp) = {..<prod_list shp}"
    by (intro card_subset_eq) auto
  then have "p \<in> ?f ` set (indices shp)" using assms(3) by simp
  then show ?thesis by (auto simp: image_iff)
qed

lemma tensor_map_same_shape:
  assumes "out \<noteq> a" "length shp \<le> md"
    and "length out_strides = length shp" "length in_strides = length shp"
    and "in_bounds shp in_strides (length (h a))"
    and "disjoint_cells shp out_strides" "in_bounds shp out_strides (prod_list shp)"
    and "prod_list shp \<le> length (h out)"
  shows "\<exists>h'. tensor_map fn md out shp out_strides a shp in_strides h = Inr h' \<and>
           (\<forall>r. r \<noteq> out \<longrightarrow> h' r = h r) \<and> length (h' out) = length (h out) \<and>
           (\<forall>c\<in>set (indices shp).
              h' out ! index_to_position c out_strides =
                fn (h a ! index_to_position c in_strides))"
proof (cases "in_strides = out_strides")
  case True
  have reads: "\<forall>p<prod_list shp. p < length (h a)"
  proof (intro allI impI)
    fix p assume "p < prod_list shp"
    then obtain c where "c \<in> set (indices shp)" "index_to_position c out_strides = p"
      using compact_surj [OF assms(6,7)] by blast
    then show "p < length (h a)" using assms(5) True by (auto simp: in_bounds_def)
  qed
  have "\<exists>h'. for_loop [0..<prod_list shp] (map_fast fn out a) h = Inr h' \<and>
           (\<forall>r. r \<noteq> out \<longrightarrow> h' r = h r) \<and>
           length (h' out) = length (h out) \<and> (\<forall>p<prod_list shp. h' out ! p = fn (h a ! p))"
  proof (rule cells_by_ordinal)
    fix i h' assume "i < prod_list shp" "\<forall>r. r \<noteq> out \<longrightarrow> h' r = h r"
      "length (h' out) = length (h out)"
    then show "map_fast fn out a i h' = Inr (h'(out := (h' out)[i := fn (h a ! i)]))"
      using reads assms(1,8) map_fast_update [of i h' out a fn] by simp
  qed (rule assms(8))
  then obtain h' where h': "for_loop [0..<prod_list shp] (map_fast fn out a) h = Inr h'"
      "\<forall>r. r \<noteq> out \<longrightarrow> h' r = h r" "length (h' out) = length (h out)"
      "\<forall>p<prod_list shp. h' out ! p = fn (h a ! p)"
    by blast
  have "\<forall>c\<in>set (indices shp).
          h' out ! index_to_position c out_strides = fn (h a ! index_to_position c in_strides)"
    using h'(4) assms(7) True by (auto simp: in_bounds_def)
  then show ?thesis using h'(1,2,3) True by (auto simp: tensor_map_def)
next
  case False
  let ?body = "map_general fn md out shp out_strides a shp in_strides"
  have "\<exists>h'. for_loop [0..<prod_list shp] ?body h = Inr h' \<and> (\<forall>r. r \<noteq> out \<longrightarrow> h' r = h r) \<and>
           length (h' out) = length (h out) \<and>
           (\<forall>c\<in>set (indices shp). h' out ! index_to_position c out_strides =
               fn (h a ! index_to_position c in_strides))"
  proof (rule cells_by_coordinate)
    fix i h' assume i: "i < prod_list shp" and fr: "\<forall>r. r \<noteq> out \<longrightarrow> h' r = h r"
      and len: "length (h' out) = length (h out)"
    have c: "coordinate i shp \<in> set (indices shp)" using i by (rule coordinate_in_indices)
    have p: "project (coordinate i shp) shp shp = coordinate i shp" using c by (rule project_same)
    have "index_to_position (coordinate i shp) out_strides < length (h' out)"
      using c assms(7,8) len by (auto simp: in_bounds_def)
    moreover have "index_to_position (coordinate i shp) in_strides < length (h' a)"
      using c assms(1,5) fr by (auto simp: in_bounds_def)
    ultimately show "?body i h' = Inr (h'(out := (h' out)
        [index_to_position (coordinate i shp) out_strides :=
           fn (h a ! index_to_position (coordinate i shp) in_strides)]))"
      using map_general_update [of shp md shp out_strides in_strides i h' out a fn]
        assms(1,2,3,4) fr by (simp add: p)
  next
    show "in_bounds shp out_strides (length (h out))"
      using assms(7,8) by (auto simp: in_bounds_def)
  qed (rule assms(6))
  then show ?thesis using False by (auto simp: tensor_map_def)
qed

lemma tensor_zip_cells:
  assumes refs: "out \<noteq> a" "out \<noteq> b"
    and bc: "shape_broadcast a_shape b_shape = Inr out_shape" "0 \<notin> set a_shape"
      "0 \<notin> set b_shape"
    and rank: "length out_shape \<le> md"
    and lens: "length out_strides = length out_shape" "length a_strides = length a_shape"
      "length b_strides = length b_shape"
    and a: "in_bounds a_shape a_strides (length (h a))"
    and b: "in_bounds b_shape b_strides (length (h b))"
    and o: "disjoint_cells out_shape out_strides"
      "in_bounds out_shape out_strides (prod_list out_shape)"
      "prod_list out_shape \<le> length (h out)"
  shows "\<exists>h'. tensor_zip fn md out out_shape out_strides a a_shape a_strides
                 b b_shape b_strides h = Inr h' \<and>
           (\<forall>r. r \<noteq> out \<longrightarrow> h' r = h r) \<and> length (h' out) = length (h out) \<and>
           (\<forall>c\<in>set (indices out_shape).
              h' out ! index_to_position c out_strides =
                fn (h a ! index_to_position (project c out_shape a_shape) a_strides)
                   (h b ! index_to_position (project c out_shape b_shape) b_strides))"
proof (cases "(a_strides = out_strides \<and> b_strides = out_strides) \<and> a_shape = b_shape")
  case True
  then have st: "a_strides = out_strides" "b_strides = out_strides" and sh: "b_shape = a_shape"
    by auto
  have osh: "out_shape = a_shape" using bc(1) sh by (simp add: shape_broadcast_same)
  have reads: "\<forall>p<prod_list out_shape. p < length (h a) \<and> p < length (h b)"
  proof (intro allI impI)
    fix p assume "p < prod_list out_shape"
    then obtain c where "c \<in> set (indices out_shape)" "index_to_position c out_strides = p"
      using compact_surj [OF o(1,2)] by blast
    then show "p < length (h a) \<and> p < length (h b)"
      using a b st sh osh by (auto simp: in_bounds_def)
  qed
  have "\<exists>h'. for_loop [0..<prod_list out_shape] (zip_fast fn out a b) h = Inr h' \<and>
           (\<forall>r. r \<noteq> out \<longrightarrow> h' r = h r) \<and> length (h' out) = length (h out) \<and>
           (\<forall>p<prod_list out_shape. h' out ! p = fn (h a ! p) (h b ! p))"
  proof (rule cells_by_ordinal)
    fix i h' assume "i < prod_list out_shape" "\<forall>r. r \<noteq> out \<longrightarrow> h' r = h r"
      "length (h' out) = length (h out)"
    then show "zip_fast fn out a b i h' = Inr (h'(out := (h' out)[i := fn (h a ! i) (h b ! i)]))"
      using reads refs o(3) zip_fast_update [of i h' out a b fn] by simp
  qed (rule o(3))
  then obtain h' where h': "for_loop [0..<prod_list out_shape] (zip_fast fn out a b) h = Inr h'"
      "\<forall>r. r \<noteq> out \<longrightarrow> h' r = h r" "length (h' out) = length (h out)"
      "\<forall>p<prod_list out_shape. h' out ! p = fn (h a ! p) (h b ! p)"
    by blast
  have "\<forall>c\<in>set (indices out_shape).
              h' out ! index_to_position c out_strides =
                fn (h a ! index_to_position (project c out_shape a_shape) a_strides)
                   (h b ! index_to_position (project c out_shape b_shape) b_strides)"
  proof
    fix c assume c: "c \<in> set (indices out_shape)"
    then have "index_to_position c out_strides < prod_list out_shape"
      using o(2) by (simp add: in_bounds_def)
    moreover have "project c out_shape a_shape = c" "project c out_shape b_shape = c"
      using c project_same [of c out_shape] by (simp_all add: osh sh)
    ultimately show "h' out ! index_to_position c out_strides =
                fn (h a ! index_to_position (project c out_shape a_shape) a_strides)
                   (h b ! index_to_position (project c out_shape b_shape) b_strides)"
      using h'(4) st by simp
  qed
  then show ?thesis using h'(1,2,3) True by (auto simp: tensor_zip_def)
next
  case False
  note fits = shape_broadcast_fits [OF bc]
  let ?body = "zip_general fn md out out_shape out_strides a a_shape a_strides
                 b b_shape b_strides"
  have "\<exists>h'. for_loop [0..<prod_list out_shape] ?body h = Inr h' \<and>
           (\<forall>r. r \<noteq> out \<longrightarrow> h' r = h r) \<and> length (h' out) = length (h out) \<and>
           (\<forall>c\<in>set (indices out_shape). h' out ! index_to_position c out_strides =
                fn (h a ! index_to_position (project c out_shape a_shape) a_strides)
                   (h b ! index_to_position (project c out_shape b_shape) b_strides))"
  proof (rule cells_by_coordinate)
    fix i h' assume i: "i < prod_list out_shape" and fr: "\<forall>r. r \<noteq> out \<longrightarrow> h' r = h r"
      and len: "length (h' out) = length (h out)"
    let ?c = "coordinate i out_shape"
    have c: "?c \<in> set (indices out_shape)" using i by (rule coordinate_in_indices)
    have pa: "project ?c out_shape a_shape \<in> set (indices a_shape)"
      using fits by (intro project_in_indices [OF c]) auto
    have pb: "project ?c out_shape b_shape \<in> set (indices b_shape)"
      using fits by (intro project_in_indices [OF c]) auto
    have "index_to_position ?c out_strides < length (h' out)"
      using c o(2,3) len by (auto simp: in_bounds_def)
    moreover have "index_to_position (project ?c out_shape a_shape) a_strides < length (h' a)"
      using pa a refs(1) fr by (auto simp: in_bounds_def)
    moreover have "index_to_position (project ?c out_shape b_shape) b_strides < length (h' b)"
      using pb b refs(2) fr by (auto simp: in_bounds_def)
    ultimately show "?body i h' = Inr (h'(out := (h' out)
        [index_to_position ?c out_strides :=
           fn (h a ! index_to_position (project ?c out_shape a_shape) a_strides)
              (h b ! index_to_position (project ?c out_shape b_shape) b_strides)]))"
      using zip_general_update [of out_shape md a_shape b_shape out_strides a_strides b_strides
          i h' out a b fn] rank lens fits refs fr by simp
  next
    show "in_bounds out_shape out_strides (length (h out))"
      using o(2,3) by (auto simp: in_bounds_def)
  qed (rule o(1))
  then show ?thesis using False by (auto simp: tensor_zip_def)
qed

section \<open>The matrix-multiply kernel\<close>

lemma length_3: "length xs = 3 \<Longrightarrow> \<exists>x y z. xs = [x, y, z]"
  by (auto simp: eval_nat_numeral length_Suc_conv)

lemma for_loop_map: "for_loop (map g ys) body s = for_loop ys (\<lambda>y. body (g y)) s"
  by (induction ys arbitrary: s) (auto simp: then_do_def split: sum.splits)

lemma for_loop_nested:
  "for_loop xs (\<lambda>x. for_loop ys (f x)) s = for_loop (List.product xs ys) (\<lambda>(x, y). f x y) s"
proof (induction xs arbitrary: s)
  case Nil
  then show ?case by simp
next
  case (Cons x xs)
  show ?case
    by (simp add: for_loop_append for_loop_map Cons then_do_def split: sum.splits)
qed

lemma upt_Suc_shift: "[0..<Suc n] = 0 # map Suc [0..<n]"
  by (simp add: upt_conv_Cons map_Suc_upt del: upt_Suc)

lemma dot_loop:
  assumes "2 < length a_strides" "1 < length b_strides"
    and "\<forall>t<length ks. ap + t * a_strides ! 2 < length (h a) \<and>
                         bp + t * b_strides ! 1 < length (h b)"
  shows "for_loop ks (dot_step add mul h a a_strides b b_strides) (acc, ap, bp) =
           Inr (foldl (\<lambda>s t. add s (mul (h a ! (ap + t * a_strides ! 2))
                                         (h b ! (bp + t * b_strides ! 1))))
                  acc [0..<length ks],
                ap + length ks * a_strides ! 2, bp + length ks * b_strides ! 1)"
  using assms(3)
proof (induction ks arbitrary: acc ap bp)
  case Nil
  then show ?case by simp
next
  case (Cons k ks)
  let ?sa = "a_strides ! 2" and ?sb = "b_strides ! 1"
  have 0: "ap < length (h a)" "bp < length (h b)" using Cons.prems by auto
  have step: "dot_step add mul h a a_strides b b_strides k (acc, ap, bp) =
                Inr (add acc (mul (h a ! ap) (h b ! bp)), ap + ?sa, bp + ?sb)"
    using 0 assms(1,2) by (simp add: dot_step_def load_in_range get_at_def)
  have rest: "\<forall>t<length ks. (ap + ?sa) + t * ?sa < length (h a) \<and>
                            (bp + ?sb) + t * ?sb < length (h b)"
  proof (intro allI impI)
    fix t assume "t < length ks"
    then have "Suc t < length (k # ks)" by simp
    from Cons.prems [rule_format, OF this]
    show "(ap + ?sa) + t * ?sa < length (h a) \<and> (bp + ?sb) + t * ?sb < length (h b)"
      by (simp add: algebra_simps)
  qed
  have shift: "foldl (\<lambda>s t. add s (mul (h a ! (ap + t * ?sa)) (h b ! (bp + t * ?sb))))
                 acc [0..<Suc (length ks)] =
     foldl (\<lambda>s t. add s (mul (h a ! ((ap + ?sa) + t * ?sa)) (h b ! ((bp + ?sb) + t * ?sb))))
       (add acc (mul (h a ! ap) (h b ! bp))) [0..<length ks]"
    by (simp only: upt_Suc_shift foldl_Cons foldl_map) (simp add: algebra_simps)
  have len: "length (k # ks) = Suc (length ks)" by simp
  show ?case
    unfolding len shift
    using Cons.IH [OF rest, of "add acc (mul (h a ! ap) (h b ! bp))"]
    by (simp add: step algebra_simps del: upt_Suc)
qed

lemma matmul_cell_update:
  assumes "length a_strides = 3" "length b_strides = 3" "length out_strides = 3"
    and "length a_shape = 3"
    and "n * out_strides ! 0 + i * out_strides ! 1 + j * out_strides ! 2 < length (h out)"
    and "\<forall>t<a_shape ! 2. n * sa + i * a_strides ! 1 + t * a_strides ! 2 < length (h a) \<and>
                          n * sb + j * b_strides ! 2 + t * b_strides ! 1 < length (h b)"
  shows "matmul_cell add mul out out_strides a a_shape a_strides b b_strides sa sb n i j h =
           Inr (h(out := (h out)[n * out_strides ! 0 + i * out_strides ! 1 + j * out_strides ! 2 :=
                  foldl (\<lambda>s t. add s
                           (mul (h a ! (n * sa + i * a_strides ! 1 + t * a_strides ! 2))
                                (h b ! (n * sb + j * b_strides ! 2 + t * b_strides ! 1))))
                    0 [0..<a_shape ! 2]]))"
proof -
  have "for_loop [0..<a_shape ! 2] (dot_step add mul h a a_strides b b_strides)
          (0, n * sa + i * a_strides ! 1, n * sb + j * b_strides ! 2) =
        Inr (foldl (\<lambda>s t. add s
                      (mul (h a ! (n * sa + i * a_strides ! 1 + t * a_strides ! 2))
                           (h b ! (n * sb + j * b_strides ! 2 + t * b_strides ! 1))))
               0 [0..<length [0..<a_shape ! 2]],
             n * sa + i * a_strides ! 1 + length [0..<a_shape ! 2] * a_strides ! 2,
             n * sb + j * b_strides ! 2 + length [0..<a_shape ! 2] * b_strides ! 1)"
    using assms(1,2,6) by (intro dot_loop) simp_all
  then show ?thesis
    using assms(1-5)
    by (simp add: matmul_cell_def get_at_def get_from_end_def store_in_range)
qed

text \<open>Where the scalars form a semiring the accumulated value is the sum of the products.\<close>

lemma accumulate_is_sum:
  "foldl (\<lambda>s t. s + f t) (acc :: 'a::comm_monoid_add) [0..<n] = acc + (\<Sum>t<n. f t)"
  by (induction n) (simp_all add: add.assoc)

lemma mem_indices_3:
  "[x, y, z] \<in> set (indices [p, q, r]) \<longleftrightarrow> x < p \<and> y < q \<and> z < r"
  by (simp add: set_indices)

lemma tensor_matrix_multiply_cells:
  assumes refs: "out \<noteq> a" "out \<noteq> b"
    and rank: "length a_shape = 3" "length b_shape = 3" "length out_shape = 3"
      "length a_strides = 3" "length b_strides = 3" "length out_strides = 3"
    and dims: "out_shape ! 1 = a_shape ! 1" "out_shape ! 2 = b_shape ! 2"
      "a_shape ! 2 = b_shape ! 1"
    and batch: "a_shape ! 0 = out_shape ! 0 \<or> a_shape ! 0 = 1"
      "b_shape ! 0 = out_shape ! 0 \<or> b_shape ! 0 = 1"
    and a: "in_bounds a_shape a_strides (length (h a))"
    and b: "in_bounds b_shape b_strides (length (h b))"
    and o: "disjoint_cells out_shape out_strides"
      "in_bounds out_shape out_strides (length (h out))"
  shows "\<exists>h'. tensor_matrix_multiply add mul out out_shape out_strides a a_shape a_strides
                 b b_shape b_strides h = Inr h' \<and>
           (\<forall>r. r \<noteq> out \<longrightarrow> h' r = h r) \<and> length (h' out) = length (h out) \<and>
           (\<forall>n<out_shape ! 0. \<forall>i<out_shape ! 1. \<forall>j<out_shape ! 2.
              h' out ! index_to_position [n, i, j] out_strides =
                foldl (\<lambda>s k. add s
                         (mul (h a ! index_to_position
                                       [if a_shape ! 0 > 1 then n else 0, i, k] a_strides)
                              (h b ! index_to_position
                                       [if b_shape ! 0 > 1 then n else 0, k, j] b_strides)))
                  0 [0..<a_shape ! 2])"
proof -
  obtain a0 a1 a2 where ash: "a_shape = [a0, a1, a2]" using length_3 [OF rank(1)] by blast
  obtain b0 b1 b2 where bsh: "b_shape = [b0, b1, b2]" using length_3 [OF rank(2)] by blast
  obtain N I J where osh: "out_shape = [N, I, J]" using length_3 [OF rank(3)] by blast
  obtain as0 as1 as2 where ast: "a_strides = [as0, as1, as2]"
    using length_3 [OF rank(4)] by blast
  obtain bs0 bs1 bs2 where bst: "b_strides = [bs0, bs1, bs2]"
    using length_3 [OF rank(5)] by blast
  obtain os0 os1 os2 where ost: "out_strides = [os0, os1, os2]"
    using length_3 [OF rank(6)] by blast
  have d: "I = a1" "J = b2" "a2 = b1" using dims by (simp_all add: ash bsh osh)
  have bt: "a0 = N \<or> a0 = 1" "b0 = N \<or> b0 = 1" using batch by (simp_all add: ash bsh osh)
  define sa where "sa = (if a0 > 1 then as0 else 0)"
  define sb where "sb = (if b0 > 1 then bs0 else 0)"
  define na where "na = (\<lambda>n::nat. if a0 > 1 then n else 0)"
  define nb where "nb = (\<lambda>n::nat. if b0 > 1 then n else 0)"
  let ?w = "\<lambda>(n, i, j). n * os0 + i * os1 + j * os2"
  let ?v = "\<lambda>n i j. foldl (\<lambda>s t. add s (mul (h a ! (n * sa + i * as1 + t * as2))
                                              (h b ! (n * sb + j * bs2 + t * bs1))))
                      0 [0..<a2]"
  let ?g = "\<lambda>(n, i, j) v. ?v n i j"
  let ?xs = "List.product [0..<N] (List.product [0..<I] [0..<J])"
  let ?cell = "matmul_cell add mul out out_strides a a_shape a_strides b b_strides sa sb"
  let ?body = "\<lambda>(n, i, j). ?cell n i j"
  have kernel: "tensor_matrix_multiply add mul out out_shape out_strides a a_shape a_strides
                  b b_shape b_strides h = for_loop ?xs ?body h"
  proof -
    have "tensor_matrix_multiply add mul out out_shape out_strides a a_shape a_strides
            b b_shape b_strides h =
          for_loop [0..<N] (\<lambda>n. for_loop [0..<I] (\<lambda>i. for_loop [0..<J] (?cell n i))) h"
      by (simp add: tensor_matrix_multiply_def batch_stride_def get_at_def ash bsh osh ast bst
          sa_def sb_def)
    also have "\<dots> = for_loop [0..<N]
                       (\<lambda>n. for_loop (List.product [0..<I] [0..<J]) (\<lambda>(i, j). ?cell n i j)) h"
    proof -
      have inner: "\<And>n. for_loop [0..<I] (\<lambda>i. for_loop [0..<J] (?cell n i)) =
                 for_loop (List.product [0..<I] [0..<J]) (\<lambda>(i, j). ?cell n i j)"
        by (rule ext) (rule for_loop_nested)
      show ?thesis by (simp only: inner)
    qed
    also have "\<dots> = for_loop ?xs (\<lambda>(n, ij). (\<lambda>(i, j). ?cell n i j) ij) h"
      by (rule for_loop_nested)
    finally show ?thesis by (simp add: case_prod_unfold)
  qed
  have pos_a: "\<And>n i t. n < N \<Longrightarrow> i < I \<Longrightarrow> t < a2 \<Longrightarrow>
      n * sa + i * as1 + t * as2 = index_to_position [na n, i, t] a_strides \<and>
      index_to_position [na n, i, t] a_strides < length (h a)"
  proof -
    fix n i t assume n: "n < N" and i: "i < I" and t: "t < a2"
    have "na n < a0" using bt(1) n by (auto simp: na_def)
    then have "[na n, i, t] \<in> set (indices a_shape)"
      using i t d by (simp add: ash mem_indices_3)
    then have "index_to_position [na n, i, t] a_strides < length (h a)"
      using a by (simp add: in_bounds_def)
    moreover have "n * sa + i * as1 + t * as2 = index_to_position [na n, i, t] a_strides"
      by (simp add: ast sa_def na_def)
    ultimately show "n * sa + i * as1 + t * as2 = index_to_position [na n, i, t] a_strides \<and>
      index_to_position [na n, i, t] a_strides < length (h a)" by simp
  qed
  have pos_b: "\<And>n j t. n < N \<Longrightarrow> j < J \<Longrightarrow> t < a2 \<Longrightarrow>
      n * sb + j * bs2 + t * bs1 = index_to_position [nb n, t, j] b_strides \<and>
      index_to_position [nb n, t, j] b_strides < length (h b)"
  proof -
    fix n j t assume n: "n < N" and j: "j < J" and t: "t < a2"
    have "nb n < b0" using bt(2) n by (auto simp: nb_def)
    then have "[nb n, t, j] \<in> set (indices b_shape)"
      using j t d by (simp add: bsh mem_indices_3)
    then have "index_to_position [nb n, t, j] b_strides < length (h b)"
      using b by (simp add: in_bounds_def)
    moreover have "n * sb + j * bs2 + t * bs1 = index_to_position [nb n, t, j] b_strides"
      by (simp add: bst sb_def nb_def)
    ultimately show "n * sb + j * bs2 + t * bs1 = index_to_position [nb n, t, j] b_strides \<and>
      index_to_position [nb n, t, j] b_strides < length (h b)" by simp
  qed
  have pos_o: "\<And>n i j. n < N \<Longrightarrow> i < I \<Longrightarrow> j < J \<Longrightarrow>
      n * os0 + i * os1 + j * os2 = index_to_position [n, i, j] out_strides \<and>
      index_to_position [n, i, j] out_strides < length (h out)"
  proof -
    fix n i j assume "n < N" "i < I" "j < J"
    then have "[n, i, j] \<in> set (indices out_shape)" by (simp add: osh mem_indices_3)
    then have "index_to_position [n, i, j] out_strides < length (h out)"
      using o(2) by (simp add: in_bounds_def)
    then show "n * os0 + i * os1 + j * os2 = index_to_position [n, i, j] out_strides \<and>
      index_to_position [n, i, j] out_strides < length (h out)"
      by (simp add: ost)
  qed
  have "\<exists>h'. for_loop ?xs ?body h = Inr h' \<and> (\<forall>r. r \<noteq> out \<longrightarrow> h' r = h r) \<and>
           length (h' out) = length (h out) \<and>
           (\<forall>x\<in>set ?xs. h' out ! ?w x = ?g x (h out ! ?w x)) \<and>
           (\<forall>p. p \<notin> ?w ` set ?xs \<longrightarrow> h' out ! p = h out ! p)"
  proof (rule for_loop_cells)
    fix x h' assume x: "x \<in> set ?xs" and fr: "\<forall>r. r \<noteq> out \<longrightarrow> h' r = h r"
      and len: "length (h' out) = length (h out)"
    obtain n i j where xe: "x = (n, i, j)" by (cases x) auto
    have r: "n < N" "i < I" "j < J" using x by (auto simp: xe)
    have eq: "h' a = h a" "h' b = h b" using fr refs by auto
    have "?cell n i j h' =
           Inr (h'(out := (h' out)[n * out_strides ! 0 + i * out_strides ! 1 + j * out_strides ! 2 :=
                  foldl (\<lambda>s t. add s
                           (mul (h' a ! (n * sa + i * a_strides ! 1 + t * a_strides ! 2))
                                (h' b ! (n * sb + j * b_strides ! 2 + t * b_strides ! 1))))
                    0 [0..<a_shape ! 2]]))"
    proof (rule matmul_cell_update)
      show "n * out_strides ! 0 + i * out_strides ! 1 + j * out_strides ! 2 < length (h' out)"
        using pos_o [OF r] len by (simp add: ost)
      show "\<forall>t<a_shape ! 2. n * sa + i * a_strides ! 1 + t * a_strides ! 2 < length (h' a) \<and>
                          n * sb + j * b_strides ! 2 + t * b_strides ! 1 < length (h' b)"
      proof (intro allI impI)
        fix t assume "t < a_shape ! 2"
        then have t: "t < a2" by (simp add: ash)
        have "n * sa + i * as1 + t * as2 < length (h a)"
          using pos_a [OF r(1,2) t] by simp
        moreover have "n * sb + j * bs2 + t * bs1 < length (h b)"
          using pos_b [OF r(1,3) t] by simp
        ultimately show "n * sa + i * a_strides ! 1 + t * a_strides ! 2 < length (h' a) \<and>
                          n * sb + j * b_strides ! 2 + t * b_strides ! 1 < length (h' b)"
          by (simp add: ast bst eq)
      qed
    qed (use rank in simp_all)
    then show "?body x h' = Inr (h'(out := (h' out)[?w x := ?g x (h' out ! ?w x)]))"
      by (simp add: xe ash ast bst ost eq)
  next
    have inj: "inj_on (\<lambda>c. index_to_position c out_strides) (set (indices out_shape))"
      using o(1) by (simp add: disjoint_cells_def distinct_map)
    have "inj_on ?w (set ?xs)"
    proof (rule inj_onI)
      fix x y assume x: "x \<in> set ?xs" and y: "y \<in> set ?xs" and e: "?w x = ?w y"
      obtain n i j where xe: "x = (n, i, j)" by (cases x) auto
      obtain n' i' j' where ye: "y = (n', i', j')" by (cases y) auto
      have mx: "[n, i, j] \<in> set (indices out_shape)"
        using x by (auto simp: xe osh mem_indices_3)
      have my: "[n', i', j'] \<in> set (indices out_shape)"
        using y by (auto simp: ye osh mem_indices_3)
      have "index_to_position [n, i, j] out_strides = index_to_position [n', i', j'] out_strides"
        using e by (simp add: xe ye ost)
      then have "[n, i, j] = [n', i', j']" using inj mx my by (auto dest: inj_onD)
      then show "x = y" by (simp add: xe ye)
    qed
    then show "distinct (map ?w ?xs)" by (simp add: distinct_map distinct_product)
  next
    show "\<forall>x\<in>set ?xs. ?w x < length (h out)"
      using pos_o by auto
  qed
  then obtain h' where h': "for_loop ?xs ?body h = Inr h'" "\<forall>r. r \<noteq> out \<longrightarrow> h' r = h r"
      "length (h' out) = length (h out)" "\<forall>x\<in>set ?xs. h' out ! ?w x = ?g x (h out ! ?w x)"
    by blast
  have "\<forall>n<out_shape ! 0. \<forall>i<out_shape ! 1. \<forall>j<out_shape ! 2.
              h' out ! index_to_position [n, i, j] out_strides =
                foldl (\<lambda>s k. add s
                         (mul (h a ! index_to_position
                                       [if a_shape ! 0 > 1 then n else 0, i, k] a_strides)
                              (h b ! index_to_position
                                       [if b_shape ! 0 > 1 then n else 0, k, j] b_strides)))
                  0 [0..<a_shape ! 2]"
  proof (intro allI impI)
    fix n i j assume "n < out_shape ! 0" "i < out_shape ! 1" "j < out_shape ! 2"
    then have r: "n < N" "i < I" "j < J" by (simp_all add: osh)
    then have "(n, i, j) \<in> set ?xs" by simp
    then have "h' out ! (n * os0 + i * os1 + j * os2) = ?v n i j"
      using h'(4) by fastforce
    also have "\<dots> = foldl (\<lambda>s t. add s (mul (h a ! index_to_position [na n, i, t] a_strides)
                                           (h b ! index_to_position [nb n, t, j] b_strides)))
                      0 [0..<a2]"
      using pos_a [OF r(1,2)] pos_b [OF r(1,3)] by (intro foldl_cong) simp_all
    finally show "h' out ! index_to_position [n, i, j] out_strides =
                foldl (\<lambda>s k. add s
                         (mul (h a ! index_to_position
                                       [if a_shape ! 0 > 1 then n else 0, i, k] a_strides)
                              (h b ! index_to_position
                                       [if b_shape ! 0 > 1 then n else 0, k, j] b_strides)))
                  0 [0..<a_shape ! 2]"
      using pos_o [OF r] by (simp add: ash bsh na_def nb_def)
  qed
  then show ?thesis using h'(1,2,3) kernel by auto
qed

section \<open>What a kernel leaves unchanged\<close>

lemma then_do_eq_Inr: "then_do m f = Inr y \<longleftrightarrow> (\<exists>x. m = Inr x \<and> f x = Inr y)"
  by (cases m) auto

lemma store_frame: "store h out p v = Inr h' \<Longrightarrow> r \<noteq> out \<Longrightarrow> h' r = h r"
  by (auto simp: store_def set_at_def then_do_eq_Inr split: if_splits)

lemma for_loop_preserves:
  assumes "\<And>x s s'. x \<in> set xs \<Longrightarrow> P s \<Longrightarrow> body x s = Inr s' \<Longrightarrow> P s'"
    and "P s" "for_loop xs body s = Inr s'"
  shows "P s'"
  using assms
proof (induction xs arbitrary: s)
  case Nil
  then show ?case by simp
next
  case (Cons x xs)
  from Cons.prems(3) obtain s1 where s1: "body x s = Inr s1" "for_loop xs body s1 = Inr s'"
    by (auto simp: then_do_eq_Inr)
  have p1: "P s1" using Cons.prems(1) [of x s s1] Cons.prems(2) s1(1) by simp
  show ?case
  proof (rule Cons.IH [OF _ p1 s1(2)])
    fix y t t' assume "y \<in> set xs" "P t" "body y t = Inr t'"
    then show "P t'" using Cons.prems(1) [of y t t'] by simp
  qed
qed

lemma map_fast_frame:
  "map_fast fn out a i h = Inr h' \<Longrightarrow> r \<noteq> out \<Longrightarrow> h' r = h r"
  by (auto simp: map_fast_def then_do_eq_Inr dest: store_frame)

lemma map_general_frame:
  "map_general fn md out osh ost a ash ast i h = Inr h' \<Longrightarrow> r \<noteq> out \<Longrightarrow> h' r = h r"
  by (auto simp: map_general_def then_do_eq_Inr Let_def dest: store_frame)

lemma zip_fast_frame:
  "zip_fast fn out a b i h = Inr h' \<Longrightarrow> r \<noteq> out \<Longrightarrow> h' r = h r"
  by (auto simp: zip_fast_def then_do_eq_Inr dest: store_frame)

lemma zip_general_frame:
  "zip_general fn md out osh ost a ash ast b bsh bst i h = Inr h' \<Longrightarrow> r \<noteq> out \<Longrightarrow> h' r = h r"
  by (auto simp: zip_general_def then_do_eq_Inr Let_def dest: store_frame)

lemma reduce_step_frame:
  "reduce_step fn out p a ast rd j (idx, h) = Inr (idx', h') \<Longrightarrow> r \<noteq> out \<Longrightarrow> h' r = h r"
  by (auto simp: reduce_step_def then_do_eq_Inr Let_def dest: store_frame)

lemma reduce_cell_frame:
  assumes "reduce_cell fn md out osh ost a ast rd n i h = Inr h'" "r \<noteq> out"
  shows "h' r = h r"
proof -
  from assms(1) obtain idx st where
    st: "for_loop [0..<n] (reduce_step fn out (index_to_position idx ost) a ast rd) (idx, h) = Inr st"
      "h' = snd st"
    by (auto simp: reduce_cell_def then_do_eq_Inr Let_def)
  have "snd st r = h r"
  proof (rule for_loop_preserves [where P = "\<lambda>s. snd s r = h r", OF _ _ st(1)])
    fix x s s'
    assume "snd s r = h r"
      "reduce_step fn out (index_to_position idx ost) a ast rd x s = Inr s'"
    then show "snd s' r = h r"
      using reduce_step_frame [of fn out _ a ast rd x "fst s" "snd s" "fst s'" "snd s'" r] assms(2)
      by simp
  qed simp
  then show ?thesis by (simp add: st(2))
qed

lemma matmul_cell_frame:
  "matmul_cell add mul out ost a ash ast b bst sa sb n i j h = Inr h' \<Longrightarrow> r \<noteq> out \<Longrightarrow>
     h' r = h r"
  by (auto simp: matmul_cell_def then_do_eq_Inr Let_def dest: store_frame)

lemma tensor_map_frame:
  assumes "tensor_map fn md out osh ost a ash ast h = Inr h'" "r \<noteq> out"
  shows "h' r = h r"
proof (rule for_loop_preserves [where P = "\<lambda>s. s r = h r"])
  show "for_loop [0..<prod_list osh]
          (\<lambda>i h. if ast = ost then map_fast fn out a i h
                 else map_general fn md out osh ost a ash ast i h) h = Inr h'"
    using assms(1) by (simp add: tensor_map_def)
next
  fix x s s'
  assume "s r = h r"
    "(if ast = ost then map_fast fn out a x s
      else map_general fn md out osh ost a ash ast x s) = Inr s'"
  then show "s' r = h r"
    using assms(2) by (auto split: if_splits dest: map_fast_frame map_general_frame)
qed simp

lemma tensor_zip_frame:
  assumes "tensor_zip fn md out osh ost a ash ast b bsh bst h = Inr h'" "r \<noteq> out"
  shows "h' r = h r"
proof (rule for_loop_preserves [where P = "\<lambda>s. s r = h r"])
  show "for_loop [0..<prod_list osh]
          (\<lambda>i h. if (ast = ost \<and> bst = ost) \<and> ash = bsh then zip_fast fn out a b i h
                 else zip_general fn md out osh ost a ash ast b bsh bst i h) h = Inr h'"
    using assms(1) by (simp add: tensor_zip_def)
next
  fix x s s'
  assume "s r = h r"
    "(if (ast = ost \<and> bst = ost) \<and> ash = bsh then zip_fast fn out a b x s
      else zip_general fn md out osh ost a ash ast b bsh bst x s) = Inr s'"
  then show "s' r = h r"
    using assms(2) by (auto split: if_splits dest: zip_fast_frame zip_general_frame)
qed simp

lemma tensor_reduce_frame:
  assumes "tensor_reduce fn md out osh ost a ash ast rd h = Inr h'" "r \<noteq> out"
  shows "h' r = h r"
proof -
  from assms(1) obtain n where
    run: "for_loop [0..<prod_list osh] (reduce_cell fn md out osh ost a ast rd n) h = Inr h'"
    by (auto simp: tensor_reduce_def then_do_eq_Inr)
  show ?thesis
  proof (rule for_loop_preserves [where P = "\<lambda>s. s r = h r", OF _ _ run])
    fix x s s'
    assume "s r = h r" "reduce_cell fn md out osh ost a ast rd n x s = Inr s'"
    then show "s' r = h r" using assms(2) by (auto dest: reduce_cell_frame)
  qed simp
qed

lemma tensor_matrix_multiply_frame:
  assumes "tensor_matrix_multiply add mul out osh ost a ash ast b bsh bst h = Inr h'"
    "r \<noteq> out"
  shows "h' r = h r"
proof -
  let ?P = "\<lambda>h0 s. s r = h0 r"
  from assms(1) obtain sa sb N where
    run: "for_loop [0..<N] (\<lambda>n h.
         then_do (get_at osh 1) (\<lambda>rows.
           for_loop [0..<rows] (\<lambda>i h.
             then_do (get_at osh 2) (\<lambda>cols.
               for_loop [0..<cols] (matmul_cell add mul out ost a ash ast b bst sa sb n i) h))
             h)) h = Inr h'"
    by (auto simp: tensor_matrix_multiply_def then_do_eq_Inr)
  have cols: "\<And>n i cols s s'. for_loop [0..<cols] (matmul_cell add mul out ost a ash ast b bst sa sb n i) s
                 = Inr s' \<Longrightarrow> s' r = s r"
  proof -
    fix n i cols s s'
    assume l: "for_loop [0..<cols] (matmul_cell add mul out ost a ash ast b bst sa sb n i) s = Inr s'"
    show "s' r = s r"
      by (rule for_loop_preserves [where P = "\<lambda>t. t r = s r", OF _ _ l])
        (use assms(2) in \<open>auto dest: matmul_cell_frame\<close>)
  qed
  have rows: "\<And>n rows s s'. for_loop [0..<rows] (\<lambda>i h.
             then_do (get_at osh 2) (\<lambda>cols.
               for_loop [0..<cols] (matmul_cell add mul out ost a ash ast b bst sa sb n i) h)) s
                 = Inr s' \<Longrightarrow> s' r = s r"
  proof -
    fix n rows s s'
    assume l: "for_loop [0..<rows] (\<lambda>i h.
             then_do (get_at osh 2) (\<lambda>cols.
               for_loop [0..<cols] (matmul_cell add mul out ost a ash ast b bst sa sb n i) h)) s = Inr s'"
    show "s' r = s r"
      by (rule for_loop_preserves [where P = "\<lambda>t. t r = s r", OF _ _ l])
        (auto simp: then_do_eq_Inr dest: cols)
  qed
  show ?thesis
    by (rule for_loop_preserves [where P = "\<lambda>t. t r = h r", OF _ _ run])
      (auto simp: then_do_eq_Inr dest: rows)
qed

section \<open>Promotion of the operands of the matrix product\<close>

lemma length_2: "length xs = 2 \<Longrightarrow> \<exists>x y. xs = [x, y]"
  by (auto simp: eval_nat_numeral length_Suc_conv)

lemma contiguous_ok:
  assumes "well_formed md a"
  shows "\<exists>c. contiguous md a = Inr c \<and> shape c = shape a \<and>
           strides c = strides_from_shape (shape a) \<and>
           length (storage c) = prod_list (shape a) \<and>
           (\<forall>i\<in>set (indices (shape a)).
              storage c ! index_to_position i (strides_from_shape (shape a)) =
                storage a ! index_to_position i (strides a))"
proof -
  let ?shp = "shape a"
  let ?h = "heap_of [replicate (prod_list ?shp) 0, storage a]"
  have "\<exists>h'. tensor_map (\<lambda>x. x) md 0 ?shp (strides_from_shape ?shp) 1 ?shp (strides a) ?h = Inr h' \<and>
           (\<forall>r. r \<noteq> 0 \<longrightarrow> h' r = ?h r) \<and> length (h' 0) = length (?h 0) \<and>
           (\<forall>c\<in>set (indices ?shp).
              h' 0 ! index_to_position c (strides_from_shape ?shp) =
                ?h 1 ! index_to_position c (strides a))"
    using assms row_major_disjoint [of ?shp] row_major_in_bounds [of ?shp]
    by (intro tensor_map_same_shape) (simp_all add: well_formed_def)
  then obtain h' where h': "tensor_map (\<lambda>x. x) md 0 ?shp (strides_from_shape ?shp) 1 ?shp
        (strides a) ?h = Inr h'"
      "length (h' 0) = prod_list ?shp"
      "\<forall>c\<in>set (indices ?shp).
              h' 0 ! index_to_position c (strides_from_shape ?shp) =
                storage a ! index_to_position c (strides a)"
    by auto
  show ?thesis
    using h' by (simp add: contiguous_def FastOps_map_def zeros_def)
qed

lemma promote_ok:
  assumes "well_formed md a"
  shows "\<exists>p. promote md a = Inr p \<and> shape p = promoted_shape (shape a) \<and>
           length (strides p) = length (shape p) \<and>
           in_bounds (shape p) (strides p) (length (storage p))"
proof (cases "length (shape a) = 2")
  case True
  then obtain s0 s1 where s: "shape a = [s0, s1]" using length_2 by blast
  obtain c where c: "contiguous md a = Inr c" "length (storage c) = prod_list (shape a)"
    using contiguous_ok [OF assms] by blast
  have "in_bounds [1, s0, s1] (strides_from_shape [1, s0, s1]) (length (storage c))"
    using row_major_in_bounds [of "[1, s0, s1]"] by (simp add: c(2) s)
  then show ?thesis
    by (simp add: promote_def c(1) s view_def promoted_shape_def)
next
  case False
  then show ?thesis using assms by (simp add: promote_def promoted_shape_def well_formed_def)
qed

lemma shape_broadcast_single:
  "shape_broadcast [x] [y] = Inr ls \<longleftrightarrow> (x = y \<or> x = 1 \<or> y = 1) \<and> ls = [max x y]"
  by (auto simp: shape_broadcast_def)


lemma broadcast_rev_error: "broadcast_rev as bs = Inl e \<Longrightarrow> e = ShapeMismatch"
  by (induction as bs rule: broadcast_rev.induct)
    (auto simp: then_do_def split: if_splits sum.splits)

lemma shape_broadcast_error: "shape_broadcast a b = Inl e \<Longrightarrow> e = ShapeMismatch"
  by (auto simp: shape_broadcast_def then_do_def split: sum.splits dest: broadcast_rev_error)

lemma promoted_shape_ends:
  assumes "2 \<le> length shp"
  shows "2 \<le> length (promoted_shape shp)"
    and "get_from_end (promoted_shape shp) 1 = Inr (last shp)"
    and "get_from_end (promoted_shape shp) 2 = Inr (shp ! (length shp - 2))"
    and "get_from_end (promoted_shape shp) (Suc 0) = Inr (last shp)"
proof -
  show "2 \<le> length (promoted_shape shp)" using assms by (simp add: promoted_shape_def)
  have ne: "shp \<noteq> []" using assms by auto
  show "get_from_end (promoted_shape shp) 1 = Inr (last shp)"
    using assms ne by (auto simp: promoted_shape_def get_from_end_def last_conv_nth)
  then show "get_from_end (promoted_shape shp) (Suc 0) = Inr (last shp)" by simp
  show "get_from_end (promoted_shape shp) 2 = Inr (shp ! (length shp - 2))"
    using assms by (auto simp: promoted_shape_def get_from_end_def)
qed

lemma promoted_rank_3:
  assumes "length shp = 2 \<or> length shp = 3" "0 \<notin> set shp"
  shows "\<exists>n. promoted_shape shp = [n, shp ! (length shp - 2), last shp] \<and> 0 < n \<and>
           batch_prefix (promoted_shape shp) = [n]"
proof (cases "length shp = 2")
  case True
  then obtain x y where "shp = [x, y]" using length_2 by blast
  then show ?thesis by (simp add: promoted_shape_def batch_prefix_def)
next
  case False
  then have "length shp = 3" using assms(1) by simp
  then obtain x y z where "shp = [x, y, z]" using length_3 by blast
  then show ?thesis using assms(2) by (simp add: promoted_shape_def batch_prefix_def)
qed

section \<open>Reduction is a left fold\<close>

text \<open>
  C2. A call of the reduce kernel on an axis \<open>0 \<le> reduce_dim < rank\<close>, whose output shape is
  the input shape with the reduced axis collapsed to 1, whose output cells are disjoint and
  hold \<open>start\<close>, and whose buffers hold every reachable position, returns, and each output
  cell then holds the left fold of \<open>fn\<close> over the reduced axis in ascending order, seeded by
  \<open>start\<close>: \<open>fn (\<dots> (fn (fn start a[\<dots>,0,\<dots>]) a[\<dots>,1,\<dots>]) \<dots>) a[\<dots>,extent-1,\<dots>]\<close>.
\<close>

theorem tensor_reduce_left_fold:
  assumes "out \<noteq> a_storage"
    and "0 \<le> reduce_dim" "nat reduce_dim < length a_shape" "length a_shape \<le> max_dims"
    and "out_shape = a_shape[nat reduce_dim := 1]"
    and "length a_strides = length a_shape" "length out_strides = length a_shape"
    and "in_bounds a_shape a_strides (length (h a_storage))"
    and "disjoint_cells out_shape out_strides"
    and "in_bounds out_shape out_strides (length (h out))"
    and "\<forall>c\<in>set (indices out_shape). h out ! index_to_position c out_strides = start"
  shows "\<exists>h'. tensor_reduce fn max_dims out out_shape out_strides a_storage a_shape a_strides
                 reduce_dim h = Inr h' \<and>
           (\<forall>c\<in>set (indices out_shape).
              h' out ! index_to_position c out_strides =
                foldl fn start
                  (map (\<lambda>j. h a_storage ! index_to_position (c[nat reduce_dim := j]) a_strides)
                     [0..<a_shape ! nat reduce_dim]))"
proof -
  have rd: "int (nat reduce_dim) = reduce_dim" using assms(2) by simp
  show ?thesis
    using tensor_reduce_fold [OF assms(1,3-10), of fn] assms(11) unfolding rd by fastforce
qed

text \<open>
  The witness folds subtraction, which is not commutative, along axis 1 of the rows
  \<open>[1,2,3]\<close> and \<open>[4,5,6]\<close>: \<open>((0 - 1) - 2) - 3 = -6\<close> and \<open>((0 - 4) - 5) - 6 = -15\<close>.
\<close>

theorem tensor_reduce_left_fold_witness:
  "in_bounds [2, 3] [3, 1] 6 \<and> disjoint_cells [2, 1] [1, 1] \<and> in_bounds [2, 1] [1, 1] 2 \<and>
   (\<exists>h'. tensor_reduce (-) 4 0 [2, 1] [1, 1] 1 [2, 3] [3, 1] 1
            (heap_of [[0, 0], [1, 2, 3, 4, 5, 6 :: int]]) = Inr h' \<and>
          h' 0 ! 0 = - 6 \<and> h' 0 ! 1 = - 15)"
proof -
  let ?h = "heap_of [[0, 0], [1, 2, 3, 4, 5, 6 :: int]]"
  have a: "in_bounds [2, 3] [3, 1] 6" "disjoint_cells [2, 1] [1, 1]" "in_bounds [2, 1] [1, 1] 2"
    by code_simp+
  have 1: "(0::nat) \<noteq> 1" "(0::int) \<le> 1" "nat 1 < length [2, 3 :: nat]"
    "length [2, 3 :: nat] \<le> 4"
    "[2, 1] = [2, 3 :: nat][nat 1 := 1]" "length [3, 1 :: nat] = length [2, 3 :: nat]"
    "length [1, 1 :: nat] = length [2, 3 :: nat]"
    by simp_all
  have 2: "in_bounds [2, 3] [3, 1] (length (?h 1))" "in_bounds [2, 1] [1, 1] (length (?h 0))"
    "\<forall>c\<in>set (indices [2, 1]). ?h 0 ! index_to_position c [1, 1] = 0"
    by code_simp+
  obtain h' where h': "tensor_reduce (-) 4 0 [2, 1] [1, 1] 1 [2, 3] [3, 1] 1 ?h = Inr h'"
    and cells: "\<forall>c\<in>set (indices [2, 1]).
              h' 0 ! index_to_position c [1, 1] =
                foldl (-) 0
                  (map (\<lambda>j. ?h 1 ! index_to_position (c[nat 1 := j]) [3, 1])
                     [0..<[2, 3] ! nat 1])"
    using tensor_reduce_left_fold [OF 1 2(1) a(2) 2(2,3), of "(-)"] by blast
  have m: "[0, 0] \<in> set (indices [2, 1])" "[1, 0] \<in> set (indices [2, 1])"
    by code_simp+
  have v: "index_to_position [0, 0] [1, 1] = 0" "index_to_position [1, 0] [1, 1] = 1"
    "foldl (-) 0 (map (\<lambda>j. ?h 1 ! index_to_position ([0, 0][nat 1 := j]) [3, 1])
                    [0..<[2, 3] ! nat 1]) = - 6"
    "foldl (-) 0 (map (\<lambda>j. ?h 1 ! index_to_position ([1, 0][nat 1 := j]) [3, 1])
                    [0..<[2, 3] ! nat 1]) = - 15"
    by code_simp+
  have "h' 0 ! 0 = - 6" "h' 0 ! 1 = - 15"
    using cells [rule_format, OF m(1)] cells [rule_format, OF m(2)] by (simp_all only: v)
  then show ?thesis using a h' by blast
qed

text \<open>
  With \<^verbatim>\<open>reduce_dim = -1\<close> the call is accepted: line 336 reads the extent of the last
  axis, but line 343 writes \<open>j\<close> into the last cell of the index buffer, which has
  \<^verbatim>\<open>MAX_DIMS\<close> cells and is longer than the rank, so the position never moves and the
  kernel folds the first element of each row \<open>extent\<close> times: \<open>[3, 12]\<close> for the rows
  \<open>[1,2,3]\<close> and \<open>[4,5,6]\<close>, whose folds are \<open>[6, 15]\<close>. The index buffer has 32 cells
  here; any length above the rank gives the same.
\<close>

theorem tensor_reduce_negative_axis:
  "map_sum (\<lambda>e. e) (\<lambda>h. h 0)
     (tensor_reduce (+) 32 0 [2, 1] [1, 1] 1 [2, 3] [3, 1] (- 1)
        (heap_of [[0, 0], [1, 2, 3, 4, 5, 6 :: real]])) = Inr [3, 12] \<and>
   [foldl (+) 0 [1, 2, 3], foldl (+) 0 [4, 5, 6]] = [6, 15 :: real]"
  by code_simp

text \<open>
  C10. \<^verbatim>\<open>FastOps.reduce\<close> allocates the output itself and fills its storage with
  \<open>start\<close> before it calls the kernel: for every well-formed input tensor and every axis
  \<open>0 \<le> dim < rank\<close> of it the call returns a tensor of the collapsed shape whose entries are
  the folds seeded by \<open>start\<close>, with nothing for the caller to initialise.
\<close>

theorem FastOps_reduce_seeds_fold:
  assumes "0 \<le> axis" "nat axis < length (shape a)" "length (shape a) \<le> max_dims"
    and "length (strides a) = length (shape a)"
    and "in_bounds (shape a) (strides a) (length (storage a))"
  shows "\<exists>out. FastOps_reduce fn start max_dims a axis = Inr out \<and>
           shape out = (shape a)[nat axis := 1] \<and>
           strides out = strides_from_shape (shape out) \<and>
           length (storage out) = prod_list (shape out) \<and>
           (\<forall>c\<in>set (indices (shape out)).
              storage out ! index_to_position c (strides out) =
                foldl fn start
                  (map (\<lambda>j. storage a ! index_to_position (c[nat axis := j]) (strides a))
                     [0..<shape a ! nat axis]))"
proof -
  define k where "k = nat axis"
  have ax: "axis = int k" using assms(1) by (simp add: k_def)
  have kl: "k < length (shape a)" using assms(2) by (simp add: k_def)
  let ?shp = "(shape a)[k := 1]"
  let ?h = "heap_of [replicate (prod_list ?shp) start, storage a]"
  have "\<exists>h'. tensor_reduce fn max_dims 0 ?shp (strides_from_shape ?shp) 1 (shape a) (strides a)
                 (int k) ?h = Inr h' \<and>
           (\<forall>r. r \<noteq> 0 \<longrightarrow> h' r = ?h r) \<and> length (h' 0) = length (?h 0) \<and>
           (\<forall>c\<in>set (indices ?shp).
              h' 0 ! index_to_position c (strides_from_shape ?shp) =
                foldl fn (?h 0 ! index_to_position c (strides_from_shape ?shp))
                  (map (\<lambda>j. ?h 1 ! index_to_position (c[k := j]) (strides a))
                     [0..<shape a ! k]))"
    using assms(3-5) kl row_major_disjoint [of ?shp] row_major_in_bounds [of ?shp]
    by (intro tensor_reduce_fold) simp_all
  then obtain h' where h':
    "tensor_reduce fn max_dims 0 ?shp (strides_from_shape ?shp) 1 (shape a) (strides a)
                 (int k) ?h = Inr h'" "length (h' 0) = prod_list ?shp"
    "\<forall>c\<in>set (indices ?shp).
              h' 0 ! index_to_position c (strides_from_shape ?shp) =
                foldl fn (replicate (prod_list ?shp) start !
                            index_to_position c (strides_from_shape ?shp))
                  (map (\<lambda>j. storage a ! index_to_position (c[k := j]) (strides a))
                     [0..<shape a ! k])"
    by auto
  have cells: "\<forall>c\<in>set (indices ?shp).
              h' 0 ! index_to_position c (strides_from_shape ?shp) =
                foldl fn start
                  (map (\<lambda>j. storage a ! index_to_position (c[k := j]) (strides a))
                     [0..<shape a ! k])"
  proof
    fix c assume c: "c \<in> set (indices ?shp)"
    then have "index_to_position c (strides_from_shape ?shp) < prod_list ?shp"
      using row_major_in_bounds [of ?shp] by (simp add: in_bounds_def)
    then show "h' 0 ! index_to_position c (strides_from_shape ?shp) =
                foldl fn start
                  (map (\<lambda>j. storage a ! index_to_position (c[k := j]) (strides a))
                     [0..<shape a ! k])"
      using h'(3) c by simp
  qed
  have "\<exists>out. FastOps_reduce fn start max_dims a (int k) = Inr out \<and>
           shape out = ?shp \<and>
           strides out = strides_from_shape (shape out) \<and>
           length (storage out) = prod_list (shape out) \<and>
           (\<forall>c\<in>set (indices (shape out)).
              storage out ! index_to_position c (strides out) =
                foldl fn start
                  (map (\<lambda>j. storage a ! index_to_position (c[k := j]) (strides a))
                     [0..<shape a ! k]))"
    using kl h'(1,2) cells
    by (simp add: FastOps_reduce_def py_set_def zeros_def)
  then show ?thesis unfolding ax by simp
qed

theorem FastOps_reduce_seeds_fold_witness:
  "in_bounds [2, 3] [3, 1] 6 \<and>
   (\<exists>out. FastOps_reduce (-) 10 4
             \<lparr>storage = [1, 2, 3, 4, 5, 6 :: int], shape = [2, 3], strides = [3, 1]\<rparr> 0 = Inr out \<and>
           shape out = [1, 3] \<and> storage out ! 0 = 5 \<and> storage out ! 1 = 3 \<and>
           storage out ! 2 = 1)"
proof -
  let ?a = "\<lparr>storage = [1, 2, 3, 4, 5, 6 :: int], shape = [2, 3], strides = [3, 1]\<rparr>"
  have 1: "(0::int) \<le> 0" "nat 0 < length (shape ?a)" "length (shape ?a) \<le> 4"
    "length (strides ?a) = length (shape ?a)"
    by simp_all
  have 2: "in_bounds (shape ?a) (strides ?a) (length (storage ?a))" "in_bounds [2, 3] [3, 1] 6"
    by code_simp+
  obtain out where out: "FastOps_reduce (-) 10 4 ?a 0 = Inr out"
    and shp: "shape out = (shape ?a)[nat 0 := 1]"
    and strd: "strides out = strides_from_shape (shape out)"
    and cells: "\<forall>c\<in>set (indices (shape out)).
              storage out ! index_to_position c (strides out) =
                foldl (-) 10
                  (map (\<lambda>j. storage ?a ! index_to_position (c[nat 0 := j]) (strides ?a))
                     [0..<shape ?a ! nat 0])"
    using FastOps_reduce_seeds_fold [OF 1 2(1), of "(-)" 10] by blast
  have s: "shape out = [1, 3]" "strides out = [3, 1]"
    using shp strd by simp_all
  have m: "[0, 0] \<in> set (indices [1, 3])" "[0, 1] \<in> set (indices [1, 3])"
    "[0, 2] \<in> set (indices [1, 3])"
    by code_simp+
  have v: "index_to_position [0, 0] [3, 1] = 0" "index_to_position [0, 1] [3, 1] = 1"
    "index_to_position [0, 2] [3, 1] = 2"
    "foldl (-) 10 (map (\<lambda>j. storage ?a ! index_to_position ([0, 0][nat 0 := j]) (strides ?a))
                     [0..<shape ?a ! nat 0]) = 5"
    "foldl (-) 10 (map (\<lambda>j. storage ?a ! index_to_position ([0, 1][nat 0 := j]) (strides ?a))
                     [0..<shape ?a ! nat 0]) = 3"
    "foldl (-) 10 (map (\<lambda>j. storage ?a ! index_to_position ([0, 2][nat 0 := j]) (strides ?a))
                     [0..<shape ?a ! nat 0]) = 1"
    by code_simp+
  have "storage out ! 0 = 5" "storage out ! 1 = 3" "storage out ! 2 = 1"
    using cells [unfolded s, rule_format, OF m(1)] cells [unfolded s, rule_format, OF m(2)]
      cells [unfolded s, rule_format, OF m(3)]
    by (simp_all only: v)
  then show ?thesis using out s(1) 2(2) by blast
qed

text \<open>
  \<^verbatim>\<open>FastOps.reduce(add, 0.0)(a, -1)\<close> on \<open>reduce_example\<close> is accepted as well: line 78
  collapses the last axis of the output shape, and the kernel folds the first element of each
  row three times. The call returns \<open>[3, 12]\<close> in place of the folds \<open>[6, 15]\<close>.
\<close>

theorem FastOps_reduce_negative_axis:
  "FastOps_reduce (+) 0 32 reduce_example (- 1) =
     Inr \<lparr>storage = [3, 12], shape = [2, 1], strides = [1, 1]\<rparr> \<and>
   [foldl (+) 0 [1, 2, 3], foldl (+) 0 [4, 5, 6]] = [6, 15 :: real]"
  by code_simp

text \<open>
  C9. When the reduced axis of the input has extent 0 the inner loop runs no step: the call
  raises nothing and every entry of the output storage keeps the value \<open>start\<close>. \<open>k\<close> is
  the axis that \<^verbatim>\<open>dim\<close> names, counted from the front.
\<close>

theorem FastOps_reduce_empty_axis:
  assumes "py_index (length (shape a)) axis = Inr k" "length (shape a) \<le> max_dims"
    and "shape a ! k = 0"
  shows "FastOps_reduce fn start max_dims a axis =
           Inr \<lparr>storage = replicate (prod_list ((shape a)[k := 1])) start,
                shape = (shape a)[k := 1],
                strides = strides_from_shape ((shape a)[k := 1])\<rparr>"
  using assms
  by (simp add: FastOps_reduce_def py_set_def zeros_def tensor_reduce_empty)

theorem FastOps_reduce_empty_axis_witness:
  "py_index 2 1 = Inr 1 \<and>
   FastOps_reduce (+) 7 4 \<lparr>storage = [], shape = [2, 0], strides = [0, 1]\<rparr> 1 =
     Inr \<lparr>storage = [7, 7 :: int], shape = [2, 1], strides = [1, 1]\<rparr>"
proof -
  let ?a = "\<lparr>storage = [] :: int list, shape = [2, 0], strides = [0, 1]\<rparr>"
  have 1: "py_index (length (shape ?a)) 1 = Inr 1" "py_index 2 1 = Inr 1" by code_simp+
  have 2: "length (shape ?a) \<le> 4" "shape ?a ! 1 = 0" by simp_all
  show ?thesis
    using FastOps_reduce_empty_axis [OF 1(1) 2, of "(+)" 7] 1(2)
    by (simp add: eval_nat_numeral)
qed

text \<open>
  C6. Reducing \<open>reduce_example\<close> with addition from \<open>0\<close> along axis 1 returns a tensor of
  shape \<open>[2,1]\<close>. Its values are \<open>[6, 15]\<close>: the second row sums to \<open>4 + 5 + 6 = 15\<close>, so
  the values \<open>[6, 18]\<close> are not what is returned.
\<close>

theorem FastOps_reduce_example:
  "2 \<le> max_dims \<Longrightarrow>
     FastOps_reduce (+) 0 max_dims reduce_example 1 =
       Inr \<lparr>storage = [6, 15], shape = [2, 1], strides = [1, 1]\<rparr>"
  by (simp add: reduce_example_def FastOps_reduce_def py_set_def py_get_def py_index_def
      set_at_def zeros_def tensor_reduce_def
      get_at_def reduce_cell_def to_index_replicate upt_rec reduce_step_def
      index_to_position_append load_def store_def coordinate_def)
    (simp add: eval_nat_numeral)

theorem FastOps_reduce_example_witness:
  "(2::nat) \<le> 32 \<and>
   FastOps_reduce (+) 0 32 reduce_example 1 =
     Inr \<lparr>storage = [6, 15], shape = [2, 1], strides = [1, 1]\<rparr>"
  using FastOps_reduce_example [of 32] by simp

theorem FastOps_reduce_example_not_18:
  "(case FastOps_reduce (+) 0 32 reduce_example 1 of Inl e \<Rightarrow> [] | Inr out \<Rightarrow> storage out)
     \<noteq> [6, 18]"
  by code_simp

section \<open>Matrix multiplication\<close>

text \<open>
  C1. A call of the matrix-multiply kernel on rank-3 operands whose inner extents agree and
  whose batch extents are equal or 1, with the output shape
  \<open>[max a\<^sub>0 b\<^sub>0, a\<^sub>1, b\<^sub>2]\<close>, returns, and every output entry is
  \<open>out[n,i,j] = \<Sum>\<^sub>k a[n,i,k] * b[n,k,j]\<close>, where an operand whose batch extent is 1
  is read at batch index 0 for every \<open>n\<close>. The sum is the one the private accumulator of
  lines 400 to 410 computes: it starts at 0 and adds the products in ascending \<open>k\<close>,
  \<open>((0 + a[n,i,0] * b[n,0,j]) + a[n,i,1] * b[n,1,j]) + \<dots>\<close>, with the scalars' own addition
  and multiplication, of which nothing is assumed.
\<close>

theorem tensor_matrix_multiply_sums:
  assumes "out \<noteq> a_storage" "out \<noteq> b_storage"
    and "length a_shape = 3" "length b_shape = 3"
    and "length a_strides = 3" "length b_strides = 3" "length out_strides = 3"
    and "a_shape ! 2 = b_shape ! 1"
    and "a_shape ! 0 = b_shape ! 0 \<or> a_shape ! 0 = 1 \<or> b_shape ! 0 = 1"
    and "0 < a_shape ! 0" "0 < b_shape ! 0"
    and "out_shape = [max (a_shape ! 0) (b_shape ! 0), a_shape ! 1, b_shape ! 2]"
    and "in_bounds a_shape a_strides (length (h a_storage))"
    and "in_bounds b_shape b_strides (length (h b_storage))"
    and "disjoint_cells out_shape out_strides"
    and "in_bounds out_shape out_strides (length (h out))"
  shows "\<exists>h'. tensor_matrix_multiply add mul out out_shape out_strides
                 a_storage a_shape a_strides b_storage b_shape b_strides h = Inr h' \<and>
           (\<forall>n<max (a_shape ! 0) (b_shape ! 0). \<forall>i<a_shape ! 1. \<forall>j<b_shape ! 2.
              h' out ! index_to_position [n, i, j] out_strides =
                foldl (\<lambda>acc k. add acc
                         (mul (h a_storage ! index_to_position
                                 [if a_shape ! 0 > 1 then n else 0, i, k] a_strides)
                              (h b_storage ! index_to_position
                                 [if b_shape ! 0 > 1 then n else 0, k, j] b_strides)))
                  0 [0..<a_shape ! 2])"
proof -
  have batch: "a_shape ! 0 = out_shape ! 0 \<or> a_shape ! 0 = 1"
    "b_shape ! 0 = out_shape ! 0 \<or> b_shape ! 0 = 1"
    using assms(9,10,11) by (auto simp: assms(12))
  have "\<exists>h'. tensor_matrix_multiply add mul out out_shape out_strides
                 a_storage a_shape a_strides b_storage b_shape b_strides h = Inr h' \<and>
           (\<forall>r. r \<noteq> out \<longrightarrow> h' r = h r) \<and> length (h' out) = length (h out) \<and>
           (\<forall>n<out_shape ! 0. \<forall>i<out_shape ! 1. \<forall>j<out_shape ! 2.
              h' out ! index_to_position [n, i, j] out_strides =
                foldl (\<lambda>acc k. add acc
                         (mul (h a_storage ! index_to_position
                                 [if a_shape ! 0 > 1 then n else 0, i, k] a_strides)
                              (h b_storage ! index_to_position
                                 [if b_shape ! 0 > 1 then n else 0, k, j] b_strides)))
                  0 [0..<a_shape ! 2])"
    using assms(1-8,13-16) batch
    by (intro tensor_matrix_multiply_cells) (simp_all add: assms(12))
  then show ?thesis by (auto simp: assms(12))
qed

text \<open>
  The witness multiplies one \<open>2\<times>3\<close> matrix with a batch of two \<open>3\<times>2\<close> matrices; entry
  \<open>[1,1,0]\<close> of the output pairs the second batch of \<open>b\<close> with the only batch of \<open>a\<close>.
\<close>

theorem tensor_matrix_multiply_sums_witness:
  "in_bounds [1, 2, 3] [6, 3, 1] 6 \<and> in_bounds [2, 3, 2] [6, 2, 1] 12 \<and>
   disjoint_cells [2, 2, 2] [4, 2, 1] \<and> in_bounds [2, 2, 2] [4, 2, 1] 8 \<and>
   (\<exists>h'. tensor_matrix_multiply (+) (*) 0 [2, 2, 2] [4, 2, 1] 1 [1, 2, 3] [6, 3, 1]
            2 [2, 3, 2] [6, 2, 1]
            (heap_of [replicate 8 0, [1, 2, 3, 4, 5, 6 :: int],
                      [1, 2, 3, 4, 5, 6, 7, 8, 9, 10, 11, 12]]) = Inr h' \<and>
          h' 0 ! 0 = 22 \<and> h' 0 ! 6 = 139)"
proof -
  let ?h = "heap_of [replicate 8 0, [1, 2, 3, 4, 5, 6 :: int],
                     [1, 2, 3, 4, 5, 6, 7, 8, 9, 10, 11, 12]]"
  let ?a = "[1, 2, 3 :: nat]" and ?b = "[2, 3, 2 :: nat]"
  have g: "in_bounds [1, 2, 3] [6, 3, 1] 6" "in_bounds [2, 3, 2] [6, 2, 1] 12"
    "disjoint_cells [2, 2, 2] [4, 2, 1]" "in_bounds [2, 2, 2] [4, 2, 1] 8"
    by code_simp+
  have 1: "(0::nat) \<noteq> 1" "(0::nat) \<noteq> 2" "length ?a = 3" "length ?b = 3"
    "length [6, 3, 1 :: nat] = 3" "length [6, 2, 1 :: nat] = 3" "length [4, 2, 1 :: nat] = 3"
    "?a ! 2 = ?b ! 1" "?a ! 0 = ?b ! 0 \<or> ?a ! 0 = 1 \<or> ?b ! 0 = 1" "0 < ?a ! 0" "0 < ?b ! 0"
    "[2, 2, 2] = [max (?a ! 0) (?b ! 0), ?a ! 1, ?b ! 2]"
    by simp_all
  have 2: "in_bounds ?a [6, 3, 1] (length (?h 1))" "in_bounds ?b [6, 2, 1] (length (?h 2))"
    "in_bounds [2, 2, 2] [4, 2, 1] (length (?h 0))"
    by code_simp+
  obtain h' where h': "tensor_matrix_multiply (+) (*) 0 [2, 2, 2] [4, 2, 1] 1 ?a [6, 3, 1]
      2 ?b [6, 2, 1] ?h = Inr h'"
    and cells: "\<forall>n<max (?a ! 0) (?b ! 0). \<forall>i<?a ! 1. \<forall>j<?b ! 2.
              h' 0 ! index_to_position [n, i, j] [4, 2, 1] =
                foldl (\<lambda>acc k. acc +
                   ?h 1 ! index_to_position [if ?a ! 0 > 1 then n else 0, i, k] [6, 3, 1] *
                   ?h 2 ! index_to_position [if ?b ! 0 > 1 then n else 0, k, j] [6, 2, 1])
                  0 [0..<?a ! 2]"
    using tensor_matrix_multiply_sums [OF 1 2(1,2) g(3) 2(3), of "(+)" "(*)"] by blast
  have r: "(0::nat) < max (?a ! 0) (?b ! 0)" "(1::nat) < max (?a ! 0) (?b ! 0)"
    "(0::nat) < ?a ! 1" "(1::nat) < ?a ! 1" "(0::nat) < ?b ! 2"
    by simp_all
  have v: "index_to_position [0, 0, 0] [4, 2, 1] = 0" "index_to_position [1, 1, 0] [4, 2, 1] = 6"
    "foldl (\<lambda>acc k. acc +
        ?h 1 ! index_to_position [if ?a ! 0 > 1 then 0 else 0, 0, k] [6, 3, 1] *
        ?h 2 ! index_to_position [if ?b ! 0 > 1 then 0 else 0, k, 0] [6, 2, 1])
       0 [0..<?a ! 2] = 22"
    "foldl (\<lambda>acc k. acc +
        ?h 1 ! index_to_position [if ?a ! 0 > 1 then 1 else 0, 1, k] [6, 3, 1] *
        ?h 2 ! index_to_position [if ?b ! 0 > 1 then 1 else 0, k, 0] [6, 2, 1])
       0 [0..<?a ! 2] = 139"
    by code_simp+
  have "h' 0 ! 0 = 22" "h' 0 ! 6 = 139"
    using cells [rule_format, OF r(1) r(3) r(5)] cells [rule_format, OF r(2) r(4) r(5)]
    by (simp_all only: v)
  then show ?thesis using g h' by blast
qed

section \<open>Zip and map\<close>

text \<open>
  C4. A call of the zip kernel whose output shape is the broadcast of the two input shapes
  returns, and the output entry at every coordinate \<open>c\<close> is \<open>fn\<close> applied to \<open>a\<close> and
  \<open>b\<close> read at the coordinates \<open>c\<close> projects to. The output cells are disjoint and fill the
  first \<open>size\<close> positions, as those of a freshly allocated tensor do, and no extent is 0.
  In particular a \<open>[2,3]\<close> tensor of ones plus a \<open>[3]\<close> tensor of twos is a \<open>[2,3]\<close>
  tensor of threes.
\<close>

theorem tensor_zip_broadcast:
  assumes "out \<noteq> a_storage" "out \<noteq> b_storage"
    and "shape_broadcast a_shape b_shape = Inr out_shape"
    and "0 \<notin> set a_shape" "0 \<notin> set b_shape"
    and "length out_shape \<le> max_dims"
    and "length out_strides = length out_shape" "length a_strides = length a_shape"
    and "length b_strides = length b_shape"
    and "in_bounds a_shape a_strides (length (h a_storage))"
    and "in_bounds b_shape b_strides (length (h b_storage))"
    and "disjoint_cells out_shape out_strides"
    and "in_bounds out_shape out_strides (prod_list out_shape)"
    and "prod_list out_shape \<le> length (h out)"
  shows "\<exists>h'. tensor_zip fn max_dims out out_shape out_strides a_storage a_shape a_strides
                 b_storage b_shape b_strides h = Inr h' \<and>
           (\<forall>c\<in>set (indices out_shape).
              h' out ! index_to_position c out_strides =
                fn (h a_storage ! index_to_position (project c out_shape a_shape) a_strides)
                   (h b_storage ! index_to_position (project c out_shape b_shape) b_strides))"
  using tensor_zip_cells [OF assms, of fn] by blast

theorem tensor_zip_broadcast_witness:
  "shape_broadcast [2, 3] [3] = Inr [2, 3] \<and>
   in_bounds [2, 3] [3, 1] 6 \<and> in_bounds [3] [1] 3 \<and> disjoint_cells [2, 3] [3, 1] \<and>
   (\<exists>h'. tensor_zip (+) 4 0 [2, 3] [3, 1] 1 [2, 3] [3, 1] 2 [3] [1]
            (heap_of [replicate 6 0, replicate 6 1, replicate 3 (2 :: real)]) = Inr h' \<and>
          (\<forall>c\<in>set (indices [2, 3]). h' 0 ! index_to_position c [3, 1] = 3)) \<and>
   FastOps_zip (+) 4 \<lparr>storage = replicate 6 (1 :: real), shape = [2, 3], strides = [3, 1]\<rparr>
                     \<lparr>storage = replicate 3 2, shape = [3], strides = [1]\<rparr> =
     Inr \<lparr>storage = [3, 3, 3, 3, 3, 3], shape = [2, 3], strides = [3, 1]\<rparr>"
proof -
  let ?h = "heap_of [replicate 6 0, replicate 6 1, replicate 3 (2 :: real)]"
  have g: "shape_broadcast [2, 3] [3] = Inr [2, 3]" "in_bounds [2, 3] [3, 1] 6"
    "in_bounds [3] [1] 3" "disjoint_cells [2, 3] [3, 1]"
    by code_simp+
  have 1: "(0::nat) \<noteq> 1" "(0::nat) \<noteq> 2" by simp_all
  have 2: "0 \<notin> set [2, 3 :: nat]" "0 \<notin> set [3 :: nat]" "length [2, 3 :: nat] \<le> 4"
    "length [3, 1 :: nat] = length [2, 3 :: nat]" "length [3, 1 :: nat] = length [2, 3 :: nat]"
    "length [1 :: nat] = length [3 :: nat]"
    by simp_all
  have 3: "in_bounds [2, 3] [3, 1] (length (?h 1))" "in_bounds [3] [1] (length (?h 2))"
    "in_bounds [2, 3] [3, 1] (prod_list [2, 3])" "prod_list [2, 3] \<le> length (?h 0)"
    by code_simp+
  obtain h' where h': "tensor_zip (+) 4 0 [2, 3] [3, 1] 1 [2, 3] [3, 1] 2 [3] [1] ?h = Inr h'"
    and cells: "\<forall>c\<in>set (indices [2, 3]).
              h' 0 ! index_to_position c [3, 1] =
                (?h 1 ! index_to_position (project c [2, 3] [2, 3]) [3, 1]) +
                (?h 2 ! index_to_position (project c [2, 3] [3]) [1])"
    using tensor_zip_broadcast [OF 1 g(1) 2 3(1,2) g(4) 3(3,4), of "(+)"] by blast
  have v: "\<forall>c\<in>set (indices [2, 3]).
             (?h 1 ! index_to_position (project c [2, 3] [2, 3]) [3, 1]) +
             (?h 2 ! index_to_position (project c [2, 3] [3]) [1]) = 3"
    by code_simp
  have e: "\<forall>c\<in>set (indices [2, 3]). h' 0 ! index_to_position c [3, 1] = 3"
    using cells v by simp
  have f: "FastOps_zip (+) 4 \<lparr>storage = replicate 6 (1 :: real), shape = [2, 3], strides = [3, 1]\<rparr>
                     \<lparr>storage = replicate 3 2, shape = [3], strides = [1]\<rparr> =
     Inr \<lparr>storage = [3, 3, 3, 3, 3, 3], shape = [2, 3], strides = [3, 1]\<rparr>"
    by code_simp
  show ?thesis using g h' e f by blast
qed

text \<open>
  C3. The fast path of the map kernel is taken whenever the strides agree, also when the
  shapes differ. An input of shape \<open>[1,3]\<close> and an output of shape \<open>[2,3]\<close> both have the
  row-major strides \<open>[3,1]\<close>: the fast path reads \<^verbatim>\<open>in_storage[3]\<close> of a buffer of three
  cells, while the general path broadcasts the row and writes \<open>[1,2,3,1,2,3]\<close>. The zip
  kernel guards its fast path with the comparison of the shapes that the map kernel lacks.
  Where the shapes agree and the output cells are disjoint and fill the first \<open>size\<close>
  positions, \<open>tensor_map_same_shape\<close> above gives the same entries on either path.
\<close>

theorem tensor_map_fast_path_out_of_range:
  "FastOps_map (\<lambda>x. x) 32 \<lparr>storage = [1, 2, 3 :: real], shape = [1, 3], strides = [3, 1]\<rparr>
     (Some (zeros [2, 3])) = Inl IndexError \<and>
   map_sum (\<lambda>e. e) (\<lambda>h. h 0)
     (tensor_map (\<lambda>x. x) 32 0 [2, 3] [3, 1] 1 [1, 3] [3, 1]
        (heap_of [replicate 6 0, [1, 2, 3 :: real]])) = Inl IndexError \<and>
   map_sum (\<lambda>e. e) (\<lambda>h. h 0)
     (for_loop [0..<prod_list [2, 3]]
        (map_general (\<lambda>x. x) 32 0 [2, 3] [3, 1] 1 [1, 3] [3, 1])
        (heap_of [replicate 6 0, [1, 2, 3 :: real]])) = Inr [1, 2, 3, 1, 2, 3]"
  by code_simp

section \<open>Frame\<close>

text \<open>
  C7. A call of the map, zip, reduce or matrix-multiply kernel that returns has written to
  the buffer named as its output and to no other: every other buffer of the store, the
  input storages among them, holds after the call what it held before.
\<close>

theorem kernels_write_only_out:
  "(tensor_map fn1 max_dims out out_shape out_strides a_storage a_shape a_strides h = Inr h1 \<longrightarrow>
      (\<forall>r. r \<noteq> out \<longrightarrow> h1 r = h r)) \<and>
   (tensor_zip fn2 max_dims out out_shape out_strides a_storage a_shape a_strides
      b_storage b_shape b_strides h = Inr h2 \<longrightarrow> (\<forall>r. r \<noteq> out \<longrightarrow> h2 r = h r)) \<and>
   (tensor_reduce fn2 max_dims out out_shape out_strides a_storage a_shape a_strides reduce_dim h
      = Inr h3 \<longrightarrow> (\<forall>r. r \<noteq> out \<longrightarrow> h3 r = h r)) \<and>
   (tensor_matrix_multiply add mul out out_shape out_strides a_storage a_shape a_strides
      b_storage b_shape b_strides hm = Inr h4 \<longrightarrow> (\<forall>r. r \<noteq> out \<longrightarrow> h4 r = hm r))"
  by (intro conjI impI allI)
    (erule tensor_map_frame tensor_zip_frame tensor_reduce_frame tensor_matrix_multiply_frame,
      assumption)+


theorem kernels_write_only_out_witness:
  "(\<exists>h'. tensor_map (\<lambda>x. x + 1) 4 0 [2, 3] [3, 1] 1 [2, 3] [1, 2]
            (heap_of [replicate 6 0, [1, 2, 3, 4, 5, 6 :: int]]) = Inr h' \<and>
          h' 1 = [1, 2, 3, 4, 5, 6]) \<and>
   (\<exists>h'. tensor_zip (+) 4 0 [2, 3] [3, 1] 1 [2, 3] [3, 1] 2 [3] [1]
            (heap_of [replicate 6 0, [1, 2, 3, 4, 5, 6 :: int], [7, 8, 9]]) = Inr h' \<and>
          h' 1 = [1, 2, 3, 4, 5, 6] \<and> h' 2 = [7, 8, 9]) \<and>
   (\<exists>h'. tensor_reduce (+) 4 0 [2, 1] [1, 1] 1 [2, 3] [3, 1] 1
            (heap_of [replicate 2 0, [1, 2, 3, 4, 5, 6 :: int]]) = Inr h' \<and>
          h' 1 = [1, 2, 3, 4, 5, 6]) \<and>
   (\<exists>h'. tensor_matrix_multiply (+) (*) 0 [1, 2, 2] [4, 2, 1] 1 [1, 2, 3] [6, 3, 1]
            2 [1, 3, 2] [6, 2, 1]
            (heap_of [replicate 4 0, [1, 2, 3, 4, 5, 6 :: int], [1, 0, 0, 1, 1, 1]]) = Inr h' \<and>
          h' 1 = [1, 2, 3, 4, 5, 6] \<and> h' 2 = [1, 0, 0, 1, 1, 1])"
proof -
  let ?hm = "heap_of [replicate 6 0, [1, 2, 3, 4, 5, 6 :: int]]"
  let ?hz = "heap_of [replicate 6 0, [1, 2, 3, 4, 5, 6 :: int], [7, 8, 9]]"
  let ?hr = "heap_of [replicate 2 0, [1, 2, 3, 4, 5, 6 :: int]]"
  let ?hk = "heap_of [replicate 4 0, [1, 2, 3, 4, 5, 6 :: int], [1, 0, 0, 1, 1, 1]]"
  have ne: "(0::nat) \<noteq> 1" "(0::nat) \<noteq> 2" "(1::nat) \<noteq> 0" "(2::nat) \<noteq> 0" by simp_all
  have "\<exists>h'. tensor_map (\<lambda>x. x + 1) 4 0 [2, 3] [3, 1] 1 [2, 3] [1, 2] ?hm = Inr h' \<and>
           (\<forall>r. r \<noteq> 0 \<longrightarrow> h' r = ?hm r) \<and> length (h' 0) = length (?hm 0) \<and>
           (\<forall>c\<in>set (indices [2, 3]).
              h' 0 ! index_to_position c [3, 1] = ?hm 1 ! index_to_position c [1, 2] + 1)"
  proof (rule tensor_map_same_shape)
    show "in_bounds [2, 3] [1, 2] (length (?hm 1))" "disjoint_cells [2, 3] [3, 1]"
      "in_bounds [2, 3] [3, 1] (prod_list [2, 3])" "prod_list [2, 3] \<le> length (?hm 0)"
      by code_simp+
  qed simp_all
  then obtain h1 where h1: "tensor_map (\<lambda>x. x + 1) 4 0 [2, 3] [3, 1] 1 [2, 3] [1, 2] ?hm = Inr h1"
    by blast
  have "\<exists>h'. tensor_zip (+) 4 0 [2, 3] [3, 1] 1 [2, 3] [3, 1] 2 [3] [1] ?hz = Inr h' \<and>
           (\<forall>r. r \<noteq> 0 \<longrightarrow> h' r = ?hz r) \<and> length (h' 0) = length (?hz 0) \<and>
           (\<forall>c\<in>set (indices [2, 3]).
              h' 0 ! index_to_position c [3, 1] =
                ?hz 1 ! index_to_position (project c [2, 3] [2, 3]) [3, 1] +
                ?hz 2 ! index_to_position (project c [2, 3] [3]) [1])"
  proof (rule tensor_zip_cells)
    show "shape_broadcast [2, 3] [3] = Inr [2, 3]" "in_bounds [2, 3] [3, 1] (length (?hz 1))"
      "in_bounds [3] [1] (length (?hz 2))" "disjoint_cells [2, 3] [3, 1]"
      "in_bounds [2, 3] [3, 1] (prod_list [2, 3])" "prod_list [2, 3] \<le> length (?hz 0)"
      by code_simp+
  qed simp_all
  then obtain h2 where h2: "tensor_zip (+) 4 0 [2, 3] [3, 1] 1 [2, 3] [3, 1] 2 [3] [1] ?hz = Inr h2"
    by blast
  have "\<exists>h'. tensor_reduce (+) 4 0 [2, 1] [1, 1] 1 [2, 3] [3, 1] (int 1) ?hr = Inr h' \<and>
           (\<forall>r. r \<noteq> 0 \<longrightarrow> h' r = ?hr r) \<and> length (h' 0) = length (?hr 0) \<and>
           (\<forall>c\<in>set (indices [2, 1]).
              h' 0 ! index_to_position c [1, 1] =
                foldl (+) (?hr 0 ! index_to_position c [1, 1])
                  (map (\<lambda>j. ?hr 1 ! index_to_position (c[1 := j]) [3, 1]) [0..<[2, 3] ! 1]))"
  proof (rule tensor_reduce_fold)
    show "in_bounds [2, 3] [3, 1] (length (?hr 1))" "disjoint_cells [2, 1] [1, 1]"
      "in_bounds [2, 1] [1, 1] (length (?hr 0))"
      by code_simp+
  qed simp_all
  then obtain h3 where h3: "tensor_reduce (+) 4 0 [2, 1] [1, 1] 1 [2, 3] [3, 1] 1 ?hr = Inr h3"
    by auto
  have "\<exists>h'. tensor_matrix_multiply (+) (*) 0 [1, 2, 2] [4, 2, 1] 1 [1, 2, 3] [6, 3, 1]
                 2 [1, 3, 2] [6, 2, 1] ?hk = Inr h' \<and>
           (\<forall>r. r \<noteq> 0 \<longrightarrow> h' r = ?hk r) \<and> length (h' 0) = length (?hk 0) \<and>
           (\<forall>n<[1, 2, 2] ! 0. \<forall>i<[1, 2, 2] ! 1. \<forall>j<[1, 2, 2] ! 2.
              h' 0 ! index_to_position [n, i, j] [4, 2, 1] =
                foldl (\<lambda>s k. s +
                   ?hk 1 !
                     index_to_position [if [1, 2, 3 :: nat] ! 0 > 1 then n else 0, i, k] [6, 3, 1] *
                   ?hk 2 !
                     index_to_position [if [1, 3, 2 :: nat] ! 0 > 1 then n else 0, k, j] [6, 2, 1])
                  0 [0..<[1, 2, 3] ! 2])"
  proof (rule tensor_matrix_multiply_cells)
    show "in_bounds [1, 2, 3] [6, 3, 1] (length (?hk 1))"
      "in_bounds [1, 3, 2] [6, 2, 1] (length (?hk 2))" "disjoint_cells [1, 2, 2] [4, 2, 1]"
      "in_bounds [1, 2, 2] [4, 2, 1] (length (?hk 0))"
      by code_simp+
  qed simp_all
  then obtain h4 where h4: "tensor_matrix_multiply (+) (*) 0 [1, 2, 2] [4, 2, 1] 1 [1, 2, 3] [6, 3, 1]
      2 [1, 3, 2] [6, 2, 1] ?hk = Inr h4"
    by blast
  have f1: "h1 1 = ?hm 1"
    using kernels_write_only_out [THEN conjunct1, rule_format, OF h1 ne(3)] .
  have f2: "h2 1 = ?hz 1" "h2 2 = ?hz 2"
    using kernels_write_only_out [THEN conjunct2, THEN conjunct1, rule_format, OF h2 ne(3)]
      kernels_write_only_out [THEN conjunct2, THEN conjunct1, rule_format, OF h2 ne(4)]
    by blast+
  have f3: "h3 1 = ?hr 1"
    using kernels_write_only_out
      [THEN conjunct2, THEN conjunct2, THEN conjunct1, rule_format, OF h3 ne(3)] .
  have f4: "h4 1 = ?hk 1" "h4 2 = ?hk 2"
    using kernels_write_only_out
      [THEN conjunct2, THEN conjunct2, THEN conjunct2, rule_format, OF h4 ne(3)]
      kernels_write_only_out
      [THEN conjunct2, THEN conjunct2, THEN conjunct2, rule_format, OF h4 ne(4)]
    by blast+
  have v: "?hm 1 = [1, 2, 3, 4, 5, 6]" "?hz 1 = [1, 2, 3, 4, 5, 6]" "?hz 2 = [7, 8, 9]"
    "?hr 1 = [1, 2, 3, 4, 5, 6]" "?hk 1 = [1, 2, 3, 4, 5, 6]" "?hk 2 = [1, 0, 0, 1, 1, 1]"
    by (simp_all add: eval_nat_numeral)
  show ?thesis
    using h1 h2 h3 h4 f1 f2 f3 f4 unfolding v by blast
qed

section \<open>The public matrix product\<close>

text \<open>
  C5. For well-formed tensors of rank at least 2 whose inner extents disagree,
  \<^verbatim>\<open>FastOps.matrix_multiply\<close> fails during its setup, before the output is allocated
  and before the matrix-multiply kernel is called, so no output storage is written. The
  failure is \<open>DimensionMismatch\<close> when the batch prefixes broadcast; when they do not,
  \<^verbatim>\<open>shape_broadcast\<close>, which line 125 calls before the assertion of line 128, fails
  first with \<open>ShapeMismatch\<close>.
\<close>

theorem matrix_multiply_inner_mismatch:
  assumes "well_formed max_dims a" "well_formed max_dims b"
    and "2 \<le> length (shape a)" "2 \<le> length (shape b)"
    and "last (shape a) \<noteq> shape b ! (length (shape b) - 2)"
  shows "matrix_multiply_setup max_dims a b =
           Inl (if isl (shape_broadcast (batch_prefix (promoted_shape (shape a)))
                                        (batch_prefix (promoted_shape (shape b))))
                then ShapeMismatch else DimensionMismatch) \<and>
         FastOps_matrix_multiply add mul max_dims a b =
           Inl (if isl (shape_broadcast (batch_prefix (promoted_shape (shape a)))
                                        (batch_prefix (promoted_shape (shape b))))
                then ShapeMismatch else DimensionMismatch)"
proof -
  let ?pa = "promoted_shape (shape a)" and ?pb = "promoted_shape (shape b)"
  let ?e = "if isl (shape_broadcast (batch_prefix ?pa) (batch_prefix ?pb))
            then ShapeMismatch else DimensionMismatch"
  obtain a' where a': "promote max_dims a = Inr a'" "shape a' = ?pa"
    using promote_ok [OF assms(1)] by blast
  obtain b' where b': "promote max_dims b = Inr b'" "shape b' = ?pb"
    using promote_ok [OF assms(2)] by blast
  note ea = promoted_shape_ends [OF assms(3)] and eb = promoted_shape_ends [OF assms(4)]
  have "matrix_multiply_setup max_dims a b = Inl ?e"
  proof (cases "shape_broadcast (batch_prefix ?pa) (batch_prefix ?pb)")
    case (Inl e)
    then have "e = ShapeMismatch" by (rule shape_broadcast_error)
    then show ?thesis
      using Inl by (simp add: matrix_multiply_setup_def a' b' batch_prefix_def)
  next
    case (Inr ls)
    then show ?thesis
      using assms(5)
      by (simp add: matrix_multiply_setup_def a' b' batch_prefix_def ea eb)
  qed
  then show ?thesis by (simp add: FastOps_matrix_multiply_def)
qed

theorem matrix_multiply_inner_mismatch_witness:
  "well_formed 4 \<lparr>storage = [1, 2, 3, 4, 5, 6 :: real], shape = [2, 3], strides = [3, 1]\<rparr> \<and>
   well_formed 4 \<lparr>storage = [1, 2, 3, 4 :: real], shape = [2, 2], strides = [2, 1]\<rparr> \<and>
   FastOps_matrix_multiply (+) (*) 4
     \<lparr>storage = [1, 2, 3, 4, 5, 6 :: real], shape = [2, 3], strides = [3, 1]\<rparr>
     \<lparr>storage = [1, 2, 3, 4], shape = [2, 2], strides = [2, 1]\<rparr> = Inl DimensionMismatch"
proof -
  let ?a = "\<lparr>storage = [1, 2, 3, 4, 5, 6 :: real], shape = [2, 3], strides = [3, 1]\<rparr>"
  let ?b = "\<lparr>storage = [1, 2, 3, 4 :: real], shape = [2, 2], strides = [2, 1]\<rparr>"
  have w: "well_formed 4 ?a" "well_formed 4 ?b" by code_simp+
  have 1: "2 \<le> length (shape ?a)" "2 \<le> length (shape ?b)"
    "last (shape ?a) \<noteq> shape ?b ! (length (shape ?b) - 2)"
    by simp_all
  have 2: "\<not> isl (shape_broadcast (batch_prefix (promoted_shape (shape ?a)))
                                  (batch_prefix (promoted_shape (shape ?b))))"
    by code_simp
  show ?thesis
    using matrix_multiply_inner_mismatch [OF w 1, where add = "(+)" and mul = "(*)"] w 2
    by simp
qed

text \<open>
  Operands of shapes \<open>[2,2,3]\<close> and \<open>[3,4,2]\<close> disagree in the inner extents (3 and 4) and
  in the batch extents (2 and 3): the call fails with \<open>ShapeMismatch\<close>, not with
  \<open>DimensionMismatch\<close>.
\<close>

theorem matrix_multiply_batch_mismatch_first:
  "last [2, 2, 3 :: nat] \<noteq> [3, 4, 2] ! 1 \<and>
   FastOps_matrix_multiply (+) (*) 32
     \<lparr>storage = replicate 12 (1 :: real), shape = [2, 2, 3], strides = [6, 3, 1]\<rparr>
     \<lparr>storage = replicate 24 1, shape = [3, 4, 2], strides = [8, 2, 1]\<rparr> = Inl ShapeMismatch \<and>
   FastOps_matrix_multiply (+) (*) 32
     \<lparr>storage = replicate 12 (1 :: real), shape = [2, 2, 3], strides = [6, 3, 1]\<rparr>
     \<lparr>storage = replicate 24 1, shape = [3, 4, 2], strides = [8, 2, 1]\<rparr> \<noteq> Inl DimensionMismatch"
  by code_simp

text \<open>
  C8. \<^verbatim>\<open>FastOps.matrix_multiply\<close> promotes a rank-2 operand to rank 3 by a leading
  batch axis of extent 1; for well-formed operands of rank 2 or 3 without empty axes, with
  agreeing inner extents and broadcasting batch prefixes, it returns a tensor whose shape is
  the broadcast of the batch prefixes followed by \<^verbatim>\<open>a.shape[-2]\<close> and
  \<^verbatim>\<open>b.shape[-1]\<close>, squeezed to rank 2 exactly when both operands had rank 2.
\<close>

theorem matrix_multiply_shape:
  assumes "well_formed max_dims a" "well_formed max_dims b"
    and "length (shape a) = 2 \<or> length (shape a) = 3"
    and "length (shape b) = 2 \<or> length (shape b) = 3"
    and "0 \<notin> set (shape a)" "0 \<notin> set (shape b)"
    and "last (shape a) = shape b ! (length (shape b) - 2)"
    and "shape_broadcast (batch_prefix (promoted_shape (shape a)))
                         (batch_prefix (promoted_shape (shape b))) = Inr ls"
  shows "\<exists>a' b' out.
           promote max_dims a = Inr a' \<and> shape a' = promoted_shape (shape a) \<and>
           promote max_dims b = Inr b' \<and> shape b' = promoted_shape (shape b) \<and>
           FastOps_matrix_multiply add mul max_dims a b = Inr out \<and>
           shape out =
             (if length (shape a) = 2 \<and> length (shape b) = 2
              then [shape a ! (length (shape a) - 2), last (shape b)]
              else ls @ [shape a ! (length (shape a) - 2), last (shape b)]) \<and>
           (length (shape out) = 2 \<longleftrightarrow> length (shape a) = 2 \<and> length (shape b) = 2)"
proof -
  let ?rows = "shape a ! (length (shape a) - 2)" and ?cols = "last (shape b)"
  let ?inner = "last (shape a)"
  obtain a' where a': "promote max_dims a = Inr a'" "shape a' = promoted_shape (shape a)"
      "length (strides a') = length (shape a')"
      "in_bounds (shape a') (strides a') (length (storage a'))"
    using promote_ok [OF assms(1)] by blast
  obtain b' where b': "promote max_dims b = Inr b'" "shape b' = promoted_shape (shape b)"
      "length (strides b') = length (shape b')"
      "in_bounds (shape b') (strides b') (length (storage b'))"
    using promote_ok [OF assms(2)] by blast
  obtain na where na: "promoted_shape (shape a) = [na, ?rows, ?inner]" "0 < na"
      "batch_prefix (promoted_shape (shape a)) = [na]"
    using promoted_rank_3 [OF assms(3,5)] by blast
  obtain nb where nb: "promoted_shape (shape b) = [nb, ?inner, ?cols]" "0 < nb"
      "batch_prefix (promoted_shape (shape b)) = [nb]"
    using promoted_rank_3 [OF assms(4,6)] assms(7) by auto
  have ls: "ls = [max na nb]" and compat: "na = nb \<or> na = 1 \<or> nb = 1"
    using assms(8) by (simp_all add: na(3) nb(3) shape_broadcast_single)
  let ?osh = "[max na nb, ?rows, ?cols]"
  let ?both = "length (shape a) = 2 \<and> length (shape b) = 2"
  let ?out = "zeros ?osh :: 'a tensor"
  have sb: "shape_broadcast [na] [nb] = Inr [max na nb]"
    using compat by (simp add: shape_broadcast_single)
  have pre: "matrix_multiply_setup max_dims a b = Inr (?out, a', b', ?both)"
    by (simp add: matrix_multiply_setup_def a'(1,2) b'(1,2) na(1) nb(1) get_from_end_def sb)
  let ?h = "heap_of [storage ?out, storage a', storage b']"
  have "\<exists>h'. tensor_matrix_multiply add mul 0 ?osh (strides_from_shape ?osh)
                 1 (shape a') (strides a') 2 (shape b') (strides b') ?h = Inr h' \<and>
           (\<forall>r. r \<noteq> 0 \<longrightarrow> h' r = ?h r) \<and> length (h' 0) = length (?h 0) \<and>
           (\<forall>n<?osh ! 0. \<forall>i<?osh ! 1. \<forall>j<?osh ! 2.
              h' 0 ! index_to_position [n, i, j] (strides_from_shape ?osh) =
                foldl (\<lambda>s k. add s
                         (mul (?h 1 ! index_to_position
                                 [if shape a' ! 0 > 1 then n else 0, i, k] (strides a'))
                              (?h 2 ! index_to_position
                                 [if shape b' ! 0 > 1 then n else 0, k, j] (strides b'))))
                  0 [0..<shape a' ! 2])"
  proof (rule tensor_matrix_multiply_cells)
    show "in_bounds (shape a') (strides a') (length (?h 1))" using a'(4) by simp
    show "in_bounds (shape b') (strides b') (length (?h 2))"
      using b'(4) by (simp add: eval_nat_numeral)
    show "disjoint_cells ?osh (strides_from_shape ?osh)" by (rule row_major_disjoint)
    show "in_bounds ?osh (strides_from_shape ?osh) (length (?h 0))"
      using row_major_in_bounds [of ?osh] by (simp add: zeros_def)
    show "shape a' ! 0 = ?osh ! 0 \<or> shape a' ! 0 = 1"
      using compat na(2) nb(2) by (auto simp: a'(2) na(1))
    show "shape b' ! 0 = ?osh ! 0 \<or> shape b' ! 0 = 1"
      using compat na(2) nb(2) by (auto simp: b'(2) nb(1))
  qed (use a'(3) b'(3) in \<open>simp_all add: a'(2) b'(2) na(1) nb(1)\<close>)
  then obtain h' where h': "tensor_matrix_multiply add mul 0 ?osh (strides_from_shape ?osh)
                 1 (shape a') (strides a') 2 (shape b') (strides b') ?h = Inr h'"
    by blast
  have run: "FastOps_matrix_multiply add mul max_dims a b =
               Inr (if ?both then view (?out\<lparr>storage := h' 0\<rparr>) [?rows, ?cols]
                    else ?out\<lparr>storage := h' 0\<rparr>)"
    using h'
    by (simp add: FastOps_matrix_multiply_def pre zeros_def get_at_def Let_def)
  show ?thesis
    using a'(1,2) b'(1,2) run by (simp add: view_def zeros_def ls)
qed

text \<open>
  The witness is the batch example of section 8 of the spec, \<open>[1,2,3]\<close> times \<open>[4,3,2]\<close>
  giving \<open>[4,2,2]\<close>, and a product of two matrices, whose result has rank 2.
\<close>

theorem matrix_multiply_shape_witness:
  "well_formed 4 \<lparr>storage = [1, 2, 3, 4, 5, 6 :: real], shape = [1, 2, 3], strides = [6, 3, 1]\<rparr> \<and>
   well_formed 4 \<lparr>storage = replicate 24 (1 :: real), shape = [4, 3, 2], strides = [6, 2, 1]\<rparr> \<and>
   (\<exists>out. FastOps_matrix_multiply (+) (*) 4
             \<lparr>storage = [1, 2, 3, 4, 5, 6 :: real], shape = [1, 2, 3], strides = [6, 3, 1]\<rparr>
             \<lparr>storage = replicate 24 1, shape = [4, 3, 2], strides = [6, 2, 1]\<rparr> = Inr out \<and>
           shape out = [4, 2, 2]) \<and>
   (\<exists>a' out. promote 4 \<lparr>storage = [1, 2, 3, 4, 5, 6 :: real], shape = [2, 3], strides = [3, 1]\<rparr>
               = Inr a' \<and> shape a' = [1, 2, 3] \<and>
             FastOps_matrix_multiply (+) (*) 4
               \<lparr>storage = [1, 2, 3, 4, 5, 6 :: real], shape = [2, 3], strides = [3, 1]\<rparr>
               \<lparr>storage = [1, 2, 3, 4, 5, 6], shape = [3, 2], strides = [2, 1]\<rparr> = Inr out \<and>
             shape out = [2, 2])"
proof -
  let ?a = "\<lparr>storage = [1, 2, 3, 4, 5, 6 :: real], shape = [1, 2, 3], strides = [6, 3, 1]\<rparr>"
  let ?b = "\<lparr>storage = replicate 24 (1 :: real), shape = [4, 3, 2], strides = [6, 2, 1]\<rparr>"
  let ?c = "\<lparr>storage = [1, 2, 3, 4, 5, 6 :: real], shape = [2, 3], strides = [3, 1]\<rparr>"
  let ?d = "\<lparr>storage = [1, 2, 3, 4, 5, 6 :: real], shape = [3, 2], strides = [2, 1]\<rparr>"
  have w: "well_formed 4 ?a" "well_formed 4 ?b" "well_formed 4 ?c" "well_formed 4 ?d"
    by code_simp+
  have 1: "length (shape ?a) = 2 \<or> length (shape ?a) = 3"
    "length (shape ?b) = 2 \<or> length (shape ?b) = 3"
    "0 \<notin> set (shape ?a)" "0 \<notin> set (shape ?b)"
    "last (shape ?a) = shape ?b ! (length (shape ?b) - 2)"
    by simp_all
  have 2: "length (shape ?c) = 2 \<or> length (shape ?c) = 3"
    "length (shape ?d) = 2 \<or> length (shape ?d) = 3"
    "0 \<notin> set (shape ?c)" "0 \<notin> set (shape ?d)"
    "last (shape ?c) = shape ?d ! (length (shape ?d) - 2)"
    by simp_all
  have 3: "shape_broadcast (batch_prefix (promoted_shape (shape ?a)))
             (batch_prefix (promoted_shape (shape ?b))) = Inr [4]"
    "shape_broadcast (batch_prefix (promoted_shape (shape ?c)))
             (batch_prefix (promoted_shape (shape ?d))) = Inr [1]"
    by code_simp+
  have p: "promoted_shape (shape ?c) = [1, 2, 3]" by code_simp
  have "\<exists>out. FastOps_matrix_multiply (+) (*) 4 ?a ?b = Inr out \<and> shape out = [4, 2, 2]"
    using matrix_multiply_shape [OF w(1,2) 1 3(1), where add = "(+)" and mul = "(*)"] by auto
  moreover have "\<exists>a' out. promote 4 ?c = Inr a' \<and> shape a' = [1, 2, 3] \<and>
      FastOps_matrix_multiply (+) (*) 4 ?c ?d = Inr out \<and> shape out = [2, 2]"
    using matrix_multiply_shape [OF w(3,4) 2 3(2), where add = "(+)" and mul = "(*)"]
    unfolding p by auto
  ultimately show ?thesis using w(1,2) by blast
qed

end
